theory Spec2Isabelle
  imports Complex_Main "HOL-Library.Sublist"
begin

section \<open>Python strings\<close>

text \<open>
  The scorers of \<^verbatim>\<open>LcPrio.py\<close> work on the cells of a table that pandas has read from a
  tab-separated file. A string is a list of characters; the model covers ASCII text, on
  which \<^verbatim>\<open>str.lower\<close>, \<^verbatim>\<open>str.strip\<close> and the regular expression classes of Python are
  the functions below.
\<close>

text \<open>\<^verbatim>\<open>str.lower\<close> maps each of the 26 capital letters to its small letter and leaves every
  other ASCII character as it is.\<close>

definition lower_char :: "char \<Rightarrow> char" where
  "lower_char c =
     (case map_of (zip ''ABCDEFGHIJKLMNOPQRSTUVWXYZ'' ''abcdefghijklmnopqrstuvwxyz'') c of
        Some l \<Rightarrow> l
      | None \<Rightarrow> c)"

definition lower :: "string \<Rightarrow> string" where
  "lower s = map lower_char s"

text \<open>\<^verbatim>\<open>str.isspace\<close> on ASCII: tab, line feed, vertical tab, form feed, carriage return,
  the four separators 0x1c to 0x1f, and the blank.\<close>

definition is_space :: "char \<Rightarrow> bool" where
  "is_space c =
     (let n = (of_char c :: nat) in (9 \<le> n \<and> n \<le> 13) \<or> (28 \<le> n \<and> n \<le> 32))"

definition strip :: "string \<Rightarrow> string" where
  "strip s = rev (dropWhile is_space (rev (dropWhile is_space s)))"

text \<open>\<^verbatim>\<open>sub in s\<close> for strings: \<open>sub\<close> occurs in \<open>s\<close> as a contiguous piece.\<close>

primrec str_contains :: "string \<Rightarrow> string \<Rightarrow> bool" where
  "str_contains sub [] = (sub = [])"
| "str_contains sub (c # cs) = (prefix sub (c # cs) \<or> str_contains sub cs)"

section \<open>Cells\<close>

text \<open>
  A cell of the data frame that \<^verbatim>\<open>pd.read_csv\<close> returns is missing (an empty field, for
  which \<^verbatim>\<open>pd.isna\<close> holds), a text, or a truth value (pandas reads a column of
  \<^verbatim>\<open>True\<close> and \<^verbatim>\<open>False\<close> as booleans). A cell of a numeric column stands as the
  decimal text of its number: no table below has a numeric key, the pattern of the
  confidence score needs a parenthesis, and \<^verbatim>\<open>float\<close> of the text is the number. The scorers
  look at a cell through \<^verbatim>\<open>pd.isna\<close>, \<^verbatim>\<open>str\<close>, \<^verbatim>\<open>float\<close> and the comparison with the
  empty text.
\<close>

datatype cell = NaN | Text string | Boolean bool

definition isna :: "cell \<Rightarrow> bool" where
  "isna v = (case v of NaN \<Rightarrow> True | Text s \<Rightarrow> False | Boolean b \<Rightarrow> False)"

text \<open>\<^verbatim>\<open>str\<close> of a cell: the text of a missing cell is \<^verbatim>\<open>nan\<close>.\<close>

definition py_str :: "cell \<Rightarrow> string" where
  "py_str v =
     (case v of
        NaN \<Rightarrow> ''nan''
      | Text s \<Rightarrow> s
      | Boolean b \<Rightarrow> (if b then ''True'' else ''False''))"

section \<open>Classification tier: \<^verbatim>\<open>get_acmg_priority\<close>\<close>

definition ACMG_PRIORITY :: "(string \<times> int) list" where
  "ACMG_PRIORITY =
    [(''Pathogenic'', 1),
     (''Likely pathogenic'', 2),
     (''Vus H'', 3),
     (''VUS H'', 3),
     (''VUS h'', 3),
     (''VUS_H'', 3),
     (''Vus M'', 4),
     (''VUS M'', 4),
     (''VUS m'', 4),
     (''VUS_M'', 4),
     (''Vus C'', 5),
     (''VUS C'', 5),
     (''VUS c'', 5),
     (''VUS_C'', 5),
     (''VUS'', 6),
     (''Vus'', 6),
     (''Uncertain significance'', 6),
     (''Likely benign'', 7),
     (''Benign'', 8),
     (''UNK'', 9),
     ('''', 9),
     (''.'', 9)]"

text \<open>The fall-back of \<^verbatim>\<open>get_acmg_priority\<close> for a lowercased label that no key matches.\<close>

definition vus_subcategory :: "string \<Rightarrow> int" where
  "vus_subcategory acmg_lower =
     (if str_contains ''vus'' acmg_lower then
        (if str_contains ''h'' acmg_lower \<or> str_contains ''high'' acmg_lower then 3
         else if str_contains ''m'' acmg_lower \<or> str_contains ''medium'' acmg_lower then 4
         else if str_contains ''c'' acmg_lower \<or> str_contains ''cold'' acmg_lower then 5
         else 6)
      else 9)"

text \<open>The loop over \<^verbatim>\<open>ACMG_PRIORITY.items()\<close>: the first key, in the order of the table,
  whose lowercase form is the lowercased label.\<close>

definition acmg_lookup_lower :: "string \<Rightarrow> int option" where
  "acmg_lookup_lower acmg_lower =
     map_option snd (find (\<lambda>kp. lower (fst kp) = acmg_lower) ACMG_PRIORITY)"

definition get_acmg_priority :: "cell \<Rightarrow> int" where
  "get_acmg_priority acmg_value =
     (if isna acmg_value then 9
      else
        (let acmg_str = strip (py_str acmg_value) in
         case map_of ACMG_PRIORITY acmg_str of
           Some p \<Rightarrow> p
         | None \<Rightarrow>
             (let acmg_lower = lower acmg_str in
              case acmg_lookup_lower acmg_lower of
                Some p \<Rightarrow> p
              | None \<Rightarrow> vus_subcategory acmg_lower)))"

section \<open>Exceptions\<close>

text \<open>
  An operation of Python that can raise returns a sum: \<open>Inl\<close> of the exception, \<open>Inr\<close> of
  the value. \<^verbatim>\<open>min\<close> of an empty list and \<^verbatim>\<open>int\<close> or \<^verbatim>\<open>float\<close> of a text that is no number
  raise \<^verbatim>\<open>ValueError\<close>, a division by zero raises \<^verbatim>\<open>ZeroDivisionError\<close>, and indexing a data
  frame by a column it does not have raises \<^verbatim>\<open>KeyError\<close>.
\<close>

datatype py_error = KeyError string | ValueError | ZeroDivisionError

definition py_min :: "int list \<Rightarrow> py_error + int" where
  "py_min xs = (case xs of [] \<Rightarrow> Inl ValueError | x # ys \<Rightarrow> Inr (fold min ys x))"

text \<open>True division of two integers. The quotient is kept as an exact rational: the
  rounding of the quotient to a binary64 float is not modelled.\<close>

definition py_truediv :: "int \<Rightarrow> int \<Rightarrow> py_error + rat" where
  "py_truediv a b = (if b = 0 then Inl ZeroDivisionError else Inr (of_int a / of_int b))"

text \<open>\<^verbatim>\<open>f\<close> applied to the elements of a column one after the other (\<^verbatim>\<open>Series.apply\<close>): the
  first exception ends the pass.\<close>

fun apply_column :: "('a \<Rightarrow> py_error + 'b) \<Rightarrow> 'a list \<Rightarrow> py_error + 'b list" where
  "apply_column f [] = Inr []"
| "apply_column f (x # xs) =
     (case f x of
        Inl e \<Rightarrow> Inl e
      | Inr y \<Rightarrow> (case apply_column f xs of Inl e \<Rightarrow> Inl e | Inr ys \<Rightarrow> Inr (y # ys)))"

section \<open>Consensus tier: \<^verbatim>\<open>get_clinvar_priority\<close>\<close>

definition CLINVAR_PRIORITY :: "(string \<times> int) list" where
  "CLINVAR_PRIORITY =
    [(''Pathogenic'', 1),
     (''Pathogenic/Likely_pathogenic'', 1),
     (''Pathogenic/Likely_pathogenic/Likely_risk_allele'', 1),
     (''Pathogenic/Likely_pathogenic/Pathogenic'' @ CHR 0x5C # ''x2c_low_penetrance'', 1),
     (''Pathogenic/Likely_risk_allele'', 1),
     (''Pathogenic/Pathogenic'' @ CHR 0x5C # ''x2c_low_penetrance'', 1),
     (''Likely_pathogenic'', 2),
     (''Likely_pathogenic/Likely_risk_allele'', 2),
     (''Likely_pathogenic'' @ CHR 0x5C # ''x2c_low_penetrance'', 2),
     (''Likely_risk_allele'', 2),
     (''Conflicting_classifications_of_pathogenicity'', 3),
     (''Uncertain_significance'', 4),
     (''Uncertain_significance/Uncertain_risk_allele'', 4),
     (''Uncertain_risk_allele'', 4),
     (''Affects'', 5),
     (''association'', 5),
     (''drug_response'', 5),
     (''confers_sensitivity'', 5),
     (''risk_factor'', 5),
     (''protective'', 5),
     (''not_provided'', 6),
     (''no_classification_for_the_single_variant'', 6),
     (''no_classifications_from_unflagged_records'', 6),
     (''other'', 6),
     (''UNK'', 6),
     ('''', 6),
     (''.'', 6),
     (''Likely_benign'', 7),
     (''Benign/Likely_benign'', 7),
     (''Benign'', 8)]"

text \<open>\<^verbatim>\<open>s.replace(old, new)\<close>: the occurrences of \<open>old\<close> are replaced from left to right,
  without overlap; an empty \<open>old\<close> matches before every character and at the end.\<close>

function str_replace :: "string \<Rightarrow> string \<Rightarrow> string \<Rightarrow> string" where
  "str_replace old new [] = (if old = [] then new else [])"
| "str_replace old new (c # cs) =
     (if old = [] then new @ c # str_replace old new cs
      else if prefix old (c # cs) then new @ str_replace old new (drop (length old) (c # cs))
      else c # str_replace old new cs)"
  by pat_completeness auto
termination
  by (relation "measure (\<lambda>(old, new, s). length s)") auto

text \<open>\<^verbatim>\<open>s.split(sep)\<close> for a separator of one character: an empty text gives one empty part.\<close>

fun split_on :: "char \<Rightarrow> string \<Rightarrow> string list" where
  "split_on sep [] = [[]]"
| "split_on sep (c # cs) =
     (if c = sep then [] # split_on sep cs
      else (case split_on sep cs of [] \<Rightarrow> [[c]] | part # parts \<Rightarrow> (c # part) # parts))"

definition get_clinvar_priority :: "cell \<Rightarrow> py_error + int" where
  "get_clinvar_priority clinvar_value =
     (if isna clinvar_value then Inr 6
      else
        (let clinvar_str = strip (str_replace ''clinvar: '' [] (py_str clinvar_value)) in
         if str_contains ''|'' clinvar_str then
           (let parts = split_on (CHR ''|'') clinvar_str;
                priorities =
                  List.map_filter (\<lambda>part. map_of CLINVAR_PRIORITY (strip part)) parts
            in if priorities \<noteq> [] then py_min priorities else Inr 6)
         else
           Inr (case map_of CLINVAR_PRIORITY clinvar_str of Some p \<Rightarrow> p | None \<Rightarrow> 6)))"

section \<open>Confidence score: \<^verbatim>\<open>parse_clnsigconf\<close>\<close>

definition is_digit :: "char \<Rightarrow> bool" where
  "is_digit c = (c \<in> set ''0123456789'')"

definition digit_val :: "char \<Rightarrow> int" where
  "digit_val c = int (of_char c) - 48"

definition digits_value :: "string \<Rightarrow> int" where
  "digits_value ds = foldl (\<lambda>a c. 10 * a + digit_val c) 0 ds"

text \<open>
  \<^verbatim>\<open>int(count)\<close> on a text of decimal digits. The interpreter refuses a text of more
  digits than \<^verbatim>\<open>sys.get_int_max_str_digits()\<close>, 4300 unless it is configured otherwise,
  with \<^verbatim>\<open>ValueError\<close>; leading zeros count as digits. Python accepts more texts than
  digits (blanks around the number, a sign, single underscores between digits); the
  second group of the pattern below is made of digits only, so none of them reaches it.
\<close>

definition int_max_str_digits :: nat where
  "int_max_str_digits = 4300"

definition py_int :: "string \<Rightarrow> py_error + int" where
  "py_int s =
     (if s \<noteq> [] \<and> list_all is_digit s \<and> length s \<le> int_max_str_digits
      then Inr (digits_value s)
      else Inl ValueError)"

text \<open>
  One match of the pattern \<^verbatim>\<open>([^(]+)\((\d+)\)\<close> at the start of a text: the longest run of
  characters other than an opening parenthesis, which must not be empty, then the
  parenthesis, the longest run of digits, not empty, and a closing parenthesis. The runs
  cannot be shortened by backtracking: a shorter first group is followed by a character
  that is no parenthesis, a shorter second group by a digit. The result holds the two
  groups and the text after the match.
\<close>

definition re_match_here :: "string \<Rightarrow> (string \<times> string \<times> string) option" where
  "re_match_here s =
     (let classification = takeWhile (\<lambda>c. c \<noteq> CHR ''('') s;
          r1 = dropWhile (\<lambda>c. c \<noteq> CHR ''('') s
      in if classification = [] then None
         else case r1 of
                [] \<Rightarrow> None
              | paren # r2 \<Rightarrow>
                  (let count = takeWhile is_digit r2;
                       r3 = dropWhile is_digit r2
                   in if count = [] then None
                      else case r3 of
                             [] \<Rightarrow> None
                           | c # r4 \<Rightarrow>
                               if c = CHR '')'' then Some (classification, count, r4)
                               else None))"

lemma re_match_here_shorter:
  assumes "re_match_here s = Some (classification, count, rest)"
  shows "length rest < length s"
proof -
  let ?P = "\<lambda>c. c \<noteq> CHR ''(''"
  from assms obtain paren r2 c where r1: "dropWhile ?P s = paren # r2"
    and r3: "dropWhile is_digit r2 = c # rest"
    by (auto simp: re_match_here_def Let_def split: if_splits list.splits)
  have "length (dropWhile is_digit r2) \<le> length r2" by (rule length_dropWhile_le)
  with r3 have "length rest < length r2" by simp
  moreover have "length (dropWhile ?P s) \<le> length s" by (rule length_dropWhile_le)
  with r1 have "length r2 < length s" by simp
  ultimately show ?thesis by simp
qed

text \<open>\<^verbatim>\<open>re.findall\<close>: the matches from left to right, each search starting where the match
  before it ended; where no match starts, the search moves on by one character.\<close>

function re_findall :: "string \<Rightarrow> (string \<times> string) list" where
  "re_findall [] = []"
| "re_findall (c # cs) =
     (case re_match_here (c # cs) of
        None \<Rightarrow> re_findall cs
      | Some m \<Rightarrow> (fst m, fst (snd m)) # re_findall (snd (snd m)))"
  by pat_completeness auto
termination
proof (relation "measure length")
  show "wf (measure length)" by simp
next
  fix c :: char and cs :: string
  show "(cs, c # cs) \<in> measure length" by simp
next
  fix c :: char and cs :: string and m
  assume "re_match_here (c # cs) = Some m"
  then have "re_match_here (c # cs) = Some (fst m, fst (snd m), snd (snd m))" by simp
  then have "length (snd (snd m)) < length (c # cs)" by (rule re_match_here_shorter)
  then show "(snd (snd m), c # cs) \<in> measure length" by simp
qed

text \<open>\<^verbatim>\<open>counts[classification] = n\<close> on a dictionary kept as the list of its items in
  insertion order: the value of a key that is there is overwritten in place, a new key
  is added at the end.\<close>

fun dict_set :: "('k \<times> 'v) list \<Rightarrow> 'k \<Rightarrow> 'v \<Rightarrow> ('k \<times> 'v) list" where
  "dict_set [] k v = [(k, v)]"
| "dict_set (item # items) k v =
     (if fst item = k then (k, v) # items else item # dict_set items k v)"

text \<open>The loop that fills \<^verbatim>\<open>counts\<close> from the matches.\<close>

fun fill_counts ::
  "(string \<times> string) list \<Rightarrow> (string \<times> int) list \<Rightarrow> py_error + (string \<times> int) list" where
  "fill_counts [] counts = Inr counts"
| "fill_counts (m # matches) counts =
     (case py_int (snd m) of
        Inl e \<Rightarrow> Inl e
      | Inr n \<Rightarrow> fill_counts matches (dict_set counts (fst m) n))"

definition weights :: "(string \<times> int) list" where
  "weights =
    [(''Pathogenic'', -10),
     (''Likely_pathogenic'', -8),
     (''Pathogenic'' @ CHR 0x5C # ''x2c_low_penetrance'', -7),
     (''Likely_risk_allele'', -6),
     (''Uncertain_significance'', 0),
     (''Uncertain_risk_allele'', 0),
     (''Likely_benign'', 5),
     (''Benign'', 8)]"

definition weight_of :: "string \<Rightarrow> int" where
  "weight_of classification =
     (case map_of weights classification of Some w \<Rightarrow> w | None \<Rightarrow> 0)"

text \<open>\<^verbatim>\<open>sum(counts.values())\<close> and the loop that adds \<^verbatim>\<open>weight * count\<close> over the items.\<close>

definition counts_total :: "(string \<times> int) list \<Rightarrow> int" where
  "counts_total counts = sum_list (map snd counts)"

definition weighted_score :: "(string \<times> int) list \<Rightarrow> int" where
  "weighted_score counts = foldl (\<lambda>score item. score + weight_of (fst item) * snd item) 0 counts"

definition parse_clnsigconf :: "cell \<Rightarrow> py_error + rat" where
  "parse_clnsigconf clnsigconf_str =
     (if isna clnsigconf_str \<or> clnsigconf_str = Text [] then Inr 0
      else
        (let matches = re_findall (py_str clnsigconf_str) in
         if matches = [] then Inr 0
         else
           (case fill_counts matches [] of
              Inl e \<Rightarrow> Inl e
            | Inr counts \<Rightarrow>
                (let total = counts_total counts in
                 if total = 0 then Inr 0
                 else py_truediv (weighted_score counts) total))))"


section \<open>Predictor score: \<^verbatim>\<open>calculate_in_silico_score\<close>\<close>

text \<open>
  A Python float is a finite number, an infinity or not-a-number. A finite float is kept
  as the exact rational it denotes; the rounding of a decimal text to the nearest
  binary64 value is not modelled, so a text within half a unit in the last place of a
  threshold is compared as the decimal it spells.
\<close>

datatype pyfloat = Fin rat | PosInf | NegInf | NotANumber

text \<open>The comparisons \<^verbatim>\<open>x >= t\<close>, \<^verbatim>\<open>x > t\<close> and \<^verbatim>\<open>x < t\<close> of a float with a finite
  threshold: every comparison with not-a-number is false.\<close>

fun float_ge :: "pyfloat \<Rightarrow> rat \<Rightarrow> bool" where
  "float_ge (Fin x) t = (x \<ge> t)"
| "float_ge PosInf t = True"
| "float_ge NegInf t = False"
| "float_ge NotANumber t = False"

fun float_gt :: "pyfloat \<Rightarrow> rat \<Rightarrow> bool" where
  "float_gt (Fin x) t = (x > t)"
| "float_gt PosInf t = True"
| "float_gt NegInf t = False"
| "float_gt NotANumber t = False"

fun float_lt :: "pyfloat \<Rightarrow> rat \<Rightarrow> bool" where
  "float_lt (Fin x) t = (x < t)"
| "float_lt PosInf t = False"
| "float_lt NegInf t = True"
| "float_lt NotANumber t = False"

text \<open>
  The texts \<^verbatim>\<open>float\<close> accepts, after the blanks around them are stripped: an optional sign,
  then \<^verbatim>\<open>inf\<close>, \<^verbatim>\<open>infinity\<close> or \<^verbatim>\<open>nan\<close> in any letter case, or a decimal number: digits,
  an optional point with digits, at least one digit in all, and an optional exponent.
  Digits may be grouped by single underscores. Every other text raises \<^verbatim>\<open>ValueError\<close>.
\<close>

text \<open>The digits at the start of a text that continue a group of digits, without the
  underscores, and the text after them.\<close>

fun digits_tail :: "string \<Rightarrow> string \<times> string" where
  "digits_tail [] = ([], [])"
| "digits_tail (c # cs) =
     (if is_digit c then (case digits_tail cs of (ds, r) \<Rightarrow> (c # ds, r))
      else if c = CHR ''_'' \<and> cs \<noteq> [] \<and> is_digit (hd cs) then digits_tail cs
      else ([], c # cs))"

definition digitpart :: "string \<Rightarrow> string \<times> string" where
  "digitpart s = (if s \<noteq> [] \<and> is_digit (hd s) then digits_tail s else ([], s))"

text \<open>The exponent of a decimal number: nothing, or \<^verbatim>\<open>e\<close> or \<^verbatim>\<open>E\<close>, an optional sign and
  digits, up to the end of the text.\<close>

definition exponent_part :: "string \<Rightarrow> int option" where
  "exponent_part s =
     (case s of
        [] \<Rightarrow> Some 0
      | c # r \<Rightarrow>
          if c = CHR ''e'' \<or> c = CHR ''E'' then
            (let negative = (r \<noteq> [] \<and> hd r = CHR ''-'');
                 r' = (if r \<noteq> [] \<and> (hd r = CHR ''-'' \<or> hd r = CHR ''+'') then tl r else r)
             in case digitpart r' of
                  (ds, rest) \<Rightarrow>
                    if ds \<noteq> [] \<and> rest = []
                    then Some (if negative then - digits_value ds else digits_value ds)
                    else None)
          else None)"

definition float_number :: "string \<Rightarrow> rat option" where
  "float_number s =
     (case digitpart s of
        (ip, r1) \<Rightarrow>
          (case (if r1 \<noteq> [] \<and> hd r1 = CHR ''.'' then digitpart (tl r1) else ([], r1)) of
             (fp, r2) \<Rightarrow>
               if ip = [] \<and> fp = [] then None
               else
                 (case exponent_part r2 of
                    None \<Rightarrow> None
                  | Some e \<Rightarrow>
                      (let m = of_int (digits_value (ip @ fp)); e' = e - int (length fp)
                       in Some (if e' \<ge> 0 then m * 10 ^ nat e' else m / 10 ^ nat (- e'))))))"

text \<open>\<^verbatim>\<open>float\<close> strips fewer characters than \<^verbatim>\<open>str.strip\<close>: on ASCII text the blank, tab,
  line feed, vertical tab, form feed and carriage return, and not the separators 0x1c
  to 0x1f.\<close>

definition is_float_space :: "char \<Rightarrow> bool" where
  "is_float_space c = (let n = (of_char c :: nat) in (9 \<le> n \<and> n \<le> 13) \<or> n = 32)"

definition float_strip :: "string \<Rightarrow> string" where
  "float_strip s = rev (dropWhile is_float_space (rev (dropWhile is_float_space s)))"

definition py_float_str :: "string \<Rightarrow> py_error + pyfloat" where
  "py_float_str s =
     (let t = float_strip s;
          negative = (t \<noteq> [] \<and> hd t = CHR ''-'');
          u = (if t \<noteq> [] \<and> (hd t = CHR ''-'' \<or> hd t = CHR ''+'') then tl t else t)
      in if lower u = ''inf'' \<or> lower u = ''infinity''
         then Inr (if negative then NegInf else PosInf)
         else if lower u = ''nan'' then Inr NotANumber
         else (case float_number u of
                 None \<Rightarrow> Inl ValueError
               | Some x \<Rightarrow> Inr (Fin (if negative then - x else x))))"

text \<open>\<^verbatim>\<open>float\<close> of a cell: a missing cell is the float not-a-number, which \<^verbatim>\<open>float\<close> returns
  as it is, and a truth value is 1 or 0.\<close>

definition py_float :: "cell \<Rightarrow> py_error + pyfloat" where
  "py_float v =
     (case v of
        NaN \<Rightarrow> Inr NotANumber
      | Text s \<Rightarrow> py_float_str s
      | Boolean b \<Rightarrow> Inr (Fin (if b then 1 else 0)))"

text \<open>A row of the data frame, as \<^verbatim>\<open>df.apply(..., axis=1)\<close> hands it over: the column
  names with the cells of the row. \<^verbatim>\<open>row.get(key, default)\<close> is the cell of the column,
  or the default when the frame has no such column.\<close>

type_synonym row = "(string \<times> cell) list"

definition row_get :: "row \<Rightarrow> string \<Rightarrow> string \<Rightarrow> cell" where
  "row_get r key dflt = (case map_of r key of Some v \<Rightarrow> v | None \<Rightarrow> Text dflt)"

text \<open>
  The five blocks of \<^verbatim>\<open>calculate_in_silico_score\<close>, each from the pair of \<^verbatim>\<open>score\<close> and
  \<^verbatim>\<open>count\<close> before it to the pair after it. In the first four, \<^verbatim>\<open>float\<close> is the only
  call that can raise, and \<^verbatim>\<open>except: pass\<close> then leaves the pair as it was.
\<close>

definition cadd_block :: "row \<Rightarrow> int \<times> int \<Rightarrow> int \<times> int" where
  "cadd_block r sc =
     (case py_float (row_get r ''CADD_phred'' ''.'') of
        Inl e \<Rightarrow> sc
      | Inr cadd \<Rightarrow>
          (if float_ge cadd 25 then fst sc - 2
           else if float_ge cadd 20 then fst sc - 1
           else fst sc,
           snd sc + 1))"

definition sift_block :: "row \<Rightarrow> int \<times> int \<Rightarrow> int \<times> int" where
  "sift_block r sc =
     (case py_float (row_get r ''SIFT_score'' ''.'') of
        Inl e \<Rightarrow> sc
      | Inr sift \<Rightarrow> (if float_lt sift (5 / 100) then fst sc - 1 else fst sc, snd sc + 1))"

definition gerp_block :: "row \<Rightarrow> int \<times> int \<Rightarrow> int \<times> int" where
  "gerp_block r sc =
     (case py_float (row_get r ''GERP++_RS'' ''.'') of
        Inl e \<Rightarrow> sc
      | Inr gerp \<Rightarrow> (if float_gt gerp (44 / 10) then fst sc - 1 else fst sc, snd sc + 1))"

definition phylop_block :: "row \<Rightarrow> int \<times> int \<Rightarrow> int \<times> int" where
  "phylop_block r sc =
     (case py_float (row_get r ''phyloP46way_placental'' ''.'') of
        Inl e \<Rightarrow> sc
      | Inr phylop \<Rightarrow> (if float_gt phylop 2 then fst sc - 1 else fst sc, snd sc + 1))"

definition metasvm_block :: "row \<Rightarrow> int \<times> int \<Rightarrow> int \<times> int" where
  "metasvm_block r sc =
     (let metasvm = strip (py_str (row_get r ''MetaSVM_score'' [])) in
      if metasvm \<noteq> [] \<and> metasvm \<noteq> ''.'' \<and> metasvm \<noteq> [] then
        (if str_contains ''D'' metasvm then fst sc - 1
         else if str_contains ''T'' metasvm then fst sc + 1
         else fst sc,
         snd sc + 1)
      else sc)"

definition calculate_in_silico_score :: "row \<Rightarrow> py_error + rat" where
  "calculate_in_silico_score r =
     (let sc = metasvm_block r (phylop_block r (gerp_block r (sift_block r (cadd_block r (0, 0)))))
      in if snd sc > 0 then py_truediv (fst sc) (snd sc) else Inr 0)"

section \<open>The priority key: \<^verbatim>\<open>prioritize_variants\<close>\<close>

text \<open>
  The data frame that \<^verbatim>\<open>pd.read_csv\<close> returns: the names of its columns and its rows.
  \<^verbatim>\<open>df[name]\<close> is the column of that name, and raises \<^verbatim>\<open>KeyError\<close> when the frame has no
  such column.
\<close>

record dataframe =
  columns :: "string list"
  rows :: "row list"

definition row_cell :: "row \<Rightarrow> string \<Rightarrow> cell" where
  "row_cell r name = (case map_of r name of Some v \<Rightarrow> v | None \<Rightarrow> NaN)"

definition df_getitem :: "dataframe \<Rightarrow> string \<Rightarrow> py_error + cell list" where
  "df_getitem df name =
     (if name \<in> set (columns df) then Inr (map (\<lambda>r. row_cell r name) (rows df))
      else Inl (KeyError name))"

text \<open>Lines 247 and 248: where the classification tier is at most 2, the consensus tier
  is set to 0.\<close>

definition ignore_clinvar :: "int \<Rightarrow> int \<Rightarrow> int" where
  "ignore_clinvar acmg_priority clinvar_priority =
     (if acmg_priority \<le> 2 then 0 else clinvar_priority)"

text \<open>Lines 251 to 256, for one row. The sum is exact: the rounding of binary64
  arithmetic is not modelled.\<close>

definition final_priority :: "int \<Rightarrow> int \<Rightarrow> rat \<Rightarrow> rat \<Rightarrow> rat" where
  "final_priority acmg_priority clinvar_priority clnsigconf_score in_silico_score =
     of_int acmg_priority * 1000000 + of_int clinvar_priority * 10000
       + clnsigconf_score * 100 + in_silico_score"

text \<open>
  Lines 241 to 256 of \<^verbatim>\<open>prioritize_variants\<close>: the four score columns, one after the
  other, the override, and the column \<^verbatim>\<open>_final_priority\<close>. The frame is then sorted by
  that column with \<^verbatim>\<open>DataFrame.sort_values\<close>, a function of pandas that is not part of
  this development.
\<close>

definition final_priority_column :: "dataframe \<Rightarrow> py_error + rat list" where
  "final_priority_column df =
     (case df_getitem df ''ACMG'' of
        Inl e \<Rightarrow> Inl e
      | Inr acmg_cells \<Rightarrow>
     (let acmg = map get_acmg_priority acmg_cells in
      case df_getitem df ''clinvar: Clinvar '' of
        Inl e \<Rightarrow> Inl e
      | Inr clinvar_cells \<Rightarrow>
     (case apply_column get_clinvar_priority clinvar_cells of
        Inl e \<Rightarrow> Inl e
      | Inr clinvar \<Rightarrow>
     (case df_getitem df ''CLNSIGCONF'' of
        Inl e \<Rightarrow> Inl e
      | Inr clnsigconf_cells \<Rightarrow>
     (case apply_column parse_clnsigconf clnsigconf_cells of
        Inl e \<Rightarrow> Inl e
      | Inr clnsigconf \<Rightarrow>
     (case apply_column calculate_in_silico_score (rows df) of
        Inl e \<Rightarrow> Inl e
      | Inr in_silico \<Rightarrow>
          Inr (map (\<lambda>(a, c, s, i). final_priority a (ignore_clinvar a c) s i)
                 (zip acmg (zip clinvar (zip clnsigconf in_silico))))))))))"

section \<open>The rules in the words of the specification\<close>

subsection \<open>The consensus rule\<close>

text \<open>
  The rule is written here on its own, with none of the functions of the resolver above:
  the blanks are listed one by one, a text is trimmed from its two ends, and it is cut at
  the pipes by a scan that collects the current field.
\<close>

definition blank :: "char \<Rightarrow> bool" where
  "blank c =
     (c \<in> set [CHR 0x09, CHR 0x0A, CHR 0x0B, CHR 0x0C, CHR 0x0D,
               CHR 0x1C, CHR 0x1D, CHR 0x1E, CHR 0x1F, CHR 0x20])"

fun trim_left :: "string \<Rightarrow> string" where
  "trim_left [] = []"
| "trim_left (c # cs) = (if blank c then trim_left cs else c # cs)"

definition trim :: "string \<Rightarrow> string" where
  "trim s = rev (trim_left (rev (trim_left s)))"

fun pipe_fields_from :: "string \<Rightarrow> string \<Rightarrow> string list" where
  "pipe_fields_from field [] = [field]"
| "pipe_fields_from field (c # cs) =
     (if c = CHR ''|'' then field # pipe_fields_from [] cs
      else pipe_fields_from (field @ [c]) cs)"

definition pipe_fields :: "string \<Rightarrow> string list" where
  "pipe_fields s = pipe_fields_from [] s"

text \<open>The tiers of the recognized parts of a cleaned text: the tiers of the entries of
  the table whose label is a trimmed part. Their minimum is the result, and 6 when no
  part is recognized.\<close>

definition recognized_tiers :: "string \<Rightarrow> int list" where
  "recognized_tiers cleaned =
     [t. part \<leftarrow> pipe_fields cleaned, (label, t) \<leftarrow> CLINVAR_PRIORITY, label = trim part]"

definition minimum_or_default :: "int list \<Rightarrow> int" where
  "minimum_or_default tiers = (if tiers = [] then 6 else Min (set tiers))"

text \<open>The rule as the claim words it: the prefix \<^verbatim>\<open>clinvar: \<close> is stripped where the text
  starts with it.\<close>

definition strip_clinvar_prefix :: "string \<Rightarrow> string" where
  "strip_clinvar_prefix s = (if take 9 s = ''clinvar: '' then drop 9 s else s)"

definition consensus_prefix_rule :: "cell \<Rightarrow> int" where
  "consensus_prefix_rule v =
     (case v of
        NaN \<Rightarrow> 6
      | Text s \<Rightarrow> minimum_or_default (recognized_tiers (trim (strip_clinvar_prefix s)))
      | Boolean b \<Rightarrow> 6)"

text \<open>The rule as amended: every occurrence of \<^verbatim>\<open>clinvar: \<close> is removed, from left to
  right.\<close>

function remove_clinvar :: "string \<Rightarrow> string" where
  "remove_clinvar s =
     (if s = [] then []
      else if take 9 s = ''clinvar: '' then remove_clinvar (drop 9 s)
      else hd s # remove_clinvar (tl s))"
  by pat_completeness auto
termination
  by (relation "measure length") auto

declare remove_clinvar.simps [simp del]

definition consensus_rule :: "cell \<Rightarrow> int" where
  "consensus_rule v =
     (case v of
        NaN \<Rightarrow> 6
      | Text s \<Rightarrow> minimum_or_default (recognized_tiers (trim (remove_clinvar s)))
      | Boolean b \<Rightarrow> 6)"

subsection \<open>The confidence rule\<close>

text \<open>The rule as the claim words it: every pair that the pattern extracts contributes
  its count to the total and its weight times its count to the weighted sum.\<close>

definition all_pairs_total :: "(string \<times> string) list \<Rightarrow> int" where
  "all_pairs_total matches = sum_list (map (\<lambda>m. digits_value (snd m)) matches)"

definition all_pairs_score :: "(string \<times> string) list \<Rightarrow> int" where
  "all_pairs_score matches =
     sum_list (map (\<lambda>m. weight_of (fst m) * digits_value (snd m)) matches)"

definition all_pairs_rule :: "(string \<times> string) list \<Rightarrow> rat" where
  "all_pairs_rule matches =
     (if matches = [] \<or> all_pairs_total matches = 0 then 0
      else of_int (all_pairs_score matches) / of_int (all_pairs_total matches))"

text \<open>The rule as amended: every extracted label contributes once, with the count of the
  last pair that carries it.\<close>

definition last_count :: "(string \<times> string) list \<Rightarrow> string \<Rightarrow> int" where
  "last_count matches label =
     digits_value (snd (last (filter (\<lambda>m. fst m = label) matches)))"

definition last_pairs_total :: "(string \<times> string) list \<Rightarrow> int" where
  "last_pairs_total matches =
     sum_list (map (last_count matches) (remdups (map fst matches)))"

definition last_pairs_score :: "(string \<times> string) list \<Rightarrow> int" where
  "last_pairs_score matches =
     sum_list (map (\<lambda>label. weight_of label * last_count matches label)
       (remdups (map fst matches)))"

definition confidence_rule :: "(string \<times> string) list \<Rightarrow> rat" where
  "confidence_rule matches =
     (if matches = [] \<or> last_pairs_total matches = 0 then 0
      else of_int (last_pairs_score matches) / of_int (last_pairs_total matches))"

text \<open>The counts that \<^verbatim>\<open>int\<close> converts: every count of the cell has at most 4300
  digits.\<close>

definition counts_within_limit :: "cell \<Rightarrow> bool" where
  "counts_within_limit v =
     list_all (\<lambda>m. length (snd m) \<le> int_max_str_digits) (re_findall (py_str v))"

subsection \<open>An invariant of the predictor score\<close>

text \<open>The pair of score and count stays within these bounds through the five blocks.\<close>

definition in_silico_inv :: "int \<times> int \<Rightarrow> bool" where
  "in_silico_inv sc = (0 \<le> snd sc \<and> - 2 * snd sc \<le> fst sc \<and> fst sc \<le> snd sc)"

section \<open>Properties of the classification tier\<close>

lemma is_space_lower_char: "is_space (lower_char c) = is_space c"
proof (cases "map_of (zip ''ABCDEFGHIJKLMNOPQRSTUVWXYZ'' ''abcdefghijklmnopqrstuvwxyz'') c")
  case None
  then show ?thesis by (simp add: lower_char_def)
next
  case (Some l)
  then have "(c, l) \<in> set (zip ''ABCDEFGHIJKLMNOPQRSTUVWXYZ'' ''abcdefghijklmnopqrstuvwxyz'')"
    by (rule map_of_SomeD)
  then have "\<not> is_space c \<and> \<not> is_space l"
    by (auto simp: is_space_def)
  with Some show ?thesis by (simp add: lower_char_def)
qed

lemma dropWhile_space_lower:
  "dropWhile is_space (map lower_char xs) = map lower_char (dropWhile is_space xs)"
  by (induction xs) (simp_all add: is_space_lower_char)

lemma lower_strip: "lower (strip s) = strip (lower s)"
  by (simp add: lower_def strip_def rev_map dropWhile_space_lower)

text \<open>Keys of the table that differ in letter case only carry the same tier, so the
  exact lookup and the lookup by lowercase form never disagree.\<close>

lemma acmg_keys_consistent:
  "list_all (\<lambda>kp. acmg_lookup_lower (lower (fst kp)) = Some (snd kp)) ACMG_PRIORITY"
  by code_simp

lemma acmg_direct_consistent:
  assumes "map_of ACMG_PRIORITY k = Some p"
  shows "acmg_lookup_lower (lower k) = Some p"
proof -
  from assms have "(k, p) \<in> set ACMG_PRIORITY" by (rule map_of_SomeD)
  with acmg_keys_consistent show ?thesis
    by (auto simp: list_all_iff)
qed

lemma get_acmg_priority_lower:
  assumes "\<not> isna v"
  shows "get_acmg_priority v =
     (case acmg_lookup_lower (lower (strip (py_str v))) of
        Some p \<Rightarrow> p
      | None \<Rightarrow> vus_subcategory (lower (strip (py_str v))))"
proof (cases "map_of ACMG_PRIORITY (strip (py_str v))")
  case None
  with assms show ?thesis by (simp add: get_acmg_priority_def Let_def)
next
  case (Some p)
  with assms show ?thesis
    using acmg_direct_consistent [OF Some] by (simp add: get_acmg_priority_def Let_def)
qed

lemma acmg_table_range: "(k, p) \<in> set ACMG_PRIORITY \<Longrightarrow> 1 \<le> p \<and> p \<le> 9"
  unfolding ACMG_PRIORITY_def by auto

lemma acmg_lookup_lower_range:
  assumes "acmg_lookup_lower l = Some p"
  shows "1 \<le> p \<and> p \<le> 9"
proof -
  from assms obtain kp where f: "find (\<lambda>kp. lower (fst kp) = l) ACMG_PRIORITY = Some kp"
    and p: "p = snd kp"
    by (auto simp: acmg_lookup_lower_def)
  from f have "kp \<in> set ACMG_PRIORITY"
    by (auto simp: find_Some_iff)
  with p show ?thesis using acmg_table_range [of "fst kp" "snd kp"] by simp
qed

lemma vus_subcategory_range: "1 \<le> vus_subcategory l \<and> vus_subcategory l \<le> 9"
  by (simp add: vus_subcategory_def)

lemma get_acmg_priority_range: "1 \<le> get_acmg_priority v \<and> get_acmg_priority v \<le> 9"
proof (cases "isna v")
  case True
  then show ?thesis by (simp add: get_acmg_priority_def)
next
  case False
  show ?thesis
  proof (cases "acmg_lookup_lower (lower (strip (py_str v)))")
    case None
    with False show ?thesis
      using vus_subcategory_range by (simp add: get_acmg_priority_lower)
  next
    case (Some p)
    with False show ?thesis
      using acmg_lookup_lower_range [OF Some] by (simp add: get_acmg_priority_lower)
  qed
qed

text \<open>
  Claim C9. The classification-tier resolver is case-insensitive: two labels with the
  same lowercase form (they differ in letter case only) get the same tier. Every
  cell gets a tier from 1 to 9, and a missing cell, the empty label and the label
  \<^verbatim>\<open>.\<close> get tier 9.
\<close>

theorem get_acmg_priority_case_insensitive:
  "(lower a = lower b \<longrightarrow> get_acmg_priority (Text a) = get_acmg_priority (Text b))
   \<and> get_acmg_priority v \<in> {1, 2, 3, 4, 5, 6, 7, 8, 9}
   \<and> get_acmg_priority NaN = 9
   \<and> get_acmg_priority (Text '''') = 9
   \<and> get_acmg_priority (Text ''.'') = 9"
proof -
  have ci: "lower a = lower b \<longrightarrow> get_acmg_priority (Text a) = get_acmg_priority (Text b)"
  proof
    assume "lower a = lower b"
    then have eq: "lower (strip (py_str (Text a))) = lower (strip (py_str (Text b)))"
      by (simp add: lower_strip py_str_def)
    have na: "\<not> isna (Text a)" and nb: "\<not> isna (Text b)" by (simp_all add: isna_def)
    note get_acmg_priority_lower [OF na] get_acmg_priority_lower [OF nb]
    then show "get_acmg_priority (Text a) = get_acmg_priority (Text b)"
      by (simp only: eq)
  qed
  have "1 \<le> get_acmg_priority v \<and> get_acmg_priority v \<le> 9"
    by (rule get_acmg_priority_range)
  then have rg: "get_acmg_priority v \<in> {1, 2, 3, 4, 5, 6, 7, 8, 9}"
    by (simp add: insert_iff) arith
  have e: "get_acmg_priority NaN = 9" "get_acmg_priority (Text '''') = 9"
    "get_acmg_priority (Text ''.'') = 9"
    by code_simp+
  from ci rg e show ?thesis by blast
qed

theorem get_acmg_priority_case_insensitive_witness:
  "lower ''LIKELY Pathogenic'' = lower ''likely pathogenic''
   \<and> get_acmg_priority (Text ''LIKELY Pathogenic'') = 2
   \<and> get_acmg_priority (Text ''likely pathogenic'') = 2"
proof -
  have l: "lower ''LIKELY Pathogenic'' = lower ''likely pathogenic''"
    by code_simp
  have v: "get_acmg_priority (Text ''likely pathogenic'') = 2"
    by code_simp
  from get_acmg_priority_case_insensitive [of "''LIKELY Pathogenic''" "''likely pathogenic''"] l v
  show ?thesis by simp
qed

section \<open>Properties of the consensus tier\<close>

lemma py_min_Min: "ps \<noteq> [] \<Longrightarrow> py_min ps = Inr (Min (set ps))"
  by (cases ps) (simp_all add: py_min_def Min.set_eq_fold [symmetric])

lemma str_contains_iff: "str_contains sub s \<longleftrightarrow> (\<exists>a b. s = a @ sub @ b)"
proof (induction s)
  case Nil
  then show ?case by auto
next
  case (Cons c cs)
  show ?case
  proof
    assume "str_contains sub (c # cs)"
    then consider "prefix sub (c # cs)" | "str_contains sub cs" by auto
    then show "\<exists>a b. c # cs = a @ sub @ b"
    proof cases
      case 1
      then obtain b where "c # cs = sub @ b" by (auto simp: prefix_def)
      then have "c # cs = [] @ sub @ b" by simp
      then show ?thesis by blast
    next
      case 2
      with Cons.IH obtain a b where "cs = a @ sub @ b" by blast
      then have "c # cs = (c # a) @ sub @ b" by simp
      then show ?thesis by blast
    qed
  next
    assume "\<exists>a b. c # cs = a @ sub @ b"
    then obtain a b where ab: "c # cs = a @ sub @ b" by blast
    show "str_contains sub (c # cs)"
    proof (cases a)
      case Nil
      with ab have "prefix sub (c # cs)" by (simp add: prefix_def)
      then show ?thesis by simp
    next
      case (Cons x a')
      with ab have "cs = a' @ sub @ b" by simp
      with Cons.IH have "str_contains sub cs" by blast
      then show ?thesis by simp
    qed
  qed
qed

lemma str_contains_char: "str_contains [c] s \<longleftrightarrow> c \<in> set s"
  by (induction s) auto

lemma split_on_not_Nil: "split_on sep s \<noteq> []"
  by (induction s) (auto split: list.splits)

lemma split_on_no_sep: "sep \<notin> set s \<Longrightarrow> split_on sep s = [s]"
  by (induction s) auto

lemma split_on_append: "split_on sep (a @ sep # b) = split_on sep a @ split_on sep b"
proof (induction a)
  case Nil
  show ?case by simp
next
  case (Cons c a)
  show ?case
  proof (cases "c = sep")
    case True
    with Cons show ?thesis by simp
  next
    case False
    obtain p ps where p: "split_on sep a = p # ps"
      using split_on_not_Nil [of sep a] by (cases "split_on sep a") auto
    with False Cons show ?thesis by simp
  qed
qed

lemma dropWhile_id: "xs = [] \<or> \<not> P (hd xs) \<Longrightarrow> dropWhile P xs = xs"
  by (cases xs) auto

lemma strip_ends:
  assumes "strip s \<noteq> []"
  shows "\<not> is_space (hd (strip s))" and "\<not> is_space (last (strip s))"
proof -
  define u where "u = dropWhile is_space s"
  define w where "w = dropWhile is_space (rev u)"
  have sw: "strip s = rev w" by (simp add: strip_def u_def w_def)
  with assms have w: "w \<noteq> []" by simp
  then have hw: "\<not> is_space (hd w)" unfolding w_def by (rule hd_dropWhile)
  have u: "u \<noteq> []"
  proof
    assume "u = []"
    then have "w = []" by (simp add: w_def)
    with w show False by simp
  qed
  then have hu: "\<not> is_space (hd u)" unfolding u_def by (rule hd_dropWhile)
  have "rev u = takeWhile is_space (rev u) @ w" by (simp add: w_def)
  then have "last (rev u) = last w" using w by (metis last_appendR)
  with u have lw: "last w = hd u" by (simp add: last_rev)
  from hw w show "\<not> is_space (last (strip s))" by (simp add: sw last_rev)
  from hu lw w show "\<not> is_space (hd (strip s))" by (simp add: sw hd_rev)
qed

lemma strip_Nil: "strip [] = []"
  by (simp add: strip_def)

lemma strip_idem: "strip (strip s) = strip s"
proof (cases "strip s = []")
  case True
  then show ?thesis by (simp add: strip_Nil)
next
  case False
  define t where "t = strip s"
  from False strip_ends [of s] have t: "t \<noteq> []" and h: "\<not> is_space (hd t)"
    and l: "\<not> is_space (last t)"
    by (simp_all add: t_def)
  from h have 1: "dropWhile is_space t = t" by (intro dropWhile_id) simp
  from t l have 2: "dropWhile is_space (rev t) = rev t"
    by (intro dropWhile_id) (simp add: hd_rev)
  have "strip t = t"
    unfolding strip_def 1 2 by simp
  then show ?thesis by (simp add: t_def)
qed

lemma set_map_filter_conv:
  "set (List.map_filter f xs) = {y. \<exists>x\<in>set xs. f x = Some y}"
  by (induction xs) (auto simp: map_filter_simps split: option.splits)

lemma clinvar_empty_label: "map_of CLINVAR_PRIORITY [] = Some 6"
  by code_simp

lemma split_on_trailing: "suffix [sep] c \<Longrightarrow> [] \<in> set (split_on sep c)"
proof -
  assume "suffix [sep] c"
  then obtain a where "c = a @ sep # []" by (auto simp: suffix_def)
  then have "split_on sep c = split_on sep a @ split_on sep []" by (simp only: split_on_append)
  then show ?thesis by simp
qed

lemma split_on_doubled: "str_contains [sep, sep] c \<Longrightarrow> [] \<in> set (split_on sep c)"
proof -
  assume "str_contains [sep, sep] c"
  then obtain a b where "c = a @ [sep, sep] @ b" by (auto simp: str_contains_iff)
  then have "c = a @ sep # (sep # b)" by simp
  then have "split_on sep c = split_on sep a @ split_on sep (sep # b)"
    by (simp only: split_on_append)
  then show ?thesis by simp
qed


subsection \<open>The resolver and the rule of the specification\<close>

text \<open>The functions of the rule are the functions of the resolver.\<close>

lemma blank_all_chars: "list_all (\<lambda>c. blank c = is_space c) Enum.enum"
  by code_simp

lemma blank_is_space: "blank c = is_space c"
proof -
  have "c \<in> set Enum.enum" by (simp add: enum_UNIV)
  with blank_all_chars show ?thesis by (simp add: list_all_iff)
qed

lemma trim_left_dropWhile: "trim_left s = dropWhile is_space s"
  by (induction s) (simp_all add: blank_is_space)

lemma trim_strip: "trim s = strip s"
  by (simp add: trim_def strip_def trim_left_dropWhile)

lemma pipe_fields_from_split_on:
  "pipe_fields_from field s =
     (field @ hd (split_on (CHR ''|'') s)) # tl (split_on (CHR ''|'') s)"
proof (induction s arbitrary: field)
  case Nil
  show ?case by simp
next
  case (Cons c cs)
  obtain p ps where p: "split_on (CHR ''|'') cs = p # ps"
    using split_on_not_Nil [of "CHR ''|''" cs] by (cases "split_on (CHR ''|'') cs") auto
  show ?case
  proof (cases "c = CHR ''|''")
    case True
    then show ?thesis by (simp add: Cons.IH p)
  next
    case False
    then show ?thesis by (simp add: Cons.IH p)
  qed
qed

lemma pipe_fields_split_on: "pipe_fields s = split_on (CHR ''|'') s"
proof -
  obtain p ps where "split_on (CHR ''|'') s = p # ps"
    using split_on_not_Nil [of "CHR ''|''" s] by (cases "split_on (CHR ''|'') s") auto
  then show ?thesis by (simp add: pipe_fields_def pipe_fields_from_split_on)
qed

lemma prefix_take: "prefix xs ys \<longleftrightarrow> take (length xs) ys = xs"
proof
  assume "prefix xs ys"
  then show "take (length xs) ys = xs" by (auto simp: prefix_def)
next
  assume "take (length xs) ys = xs"
  then have "ys = xs @ drop (length xs) ys" by (metis append_take_drop_id)
  then show "prefix xs ys" by (metis prefixI)
qed

lemma str_replace_step:
  assumes "old \<noteq> []" and "s \<noteq> []"
  shows "str_replace old new s =
     (if prefix old s then new @ str_replace old new (drop (length old) s)
      else hd s # str_replace old new (tl s))"
  using assms by (cases s) auto

lemma str_replace_clinvar_step:
  assumes "s \<noteq> []"
  shows "str_replace ''clinvar: '' [] s =
     (if take 9 s = ''clinvar: '' then str_replace ''clinvar: '' [] (drop 9 s)
      else hd s # str_replace ''clinvar: '' [] (tl s))"
proof -
  have len: "length ''clinvar: '' = 9" by simp
  have pt: "prefix ''clinvar: '' s \<longleftrightarrow> take 9 s = ''clinvar: ''"
    using prefix_take [of "''clinvar: ''" s] by (simp only: len)
  have "''clinvar: '' \<noteq> []" by simp
  from str_replace_step [OF this assms, of "[]"] show ?thesis
    by (simp only: len pt append_Nil)
qed

lemma remove_clinvar_str_replace: "remove_clinvar s = str_replace ''clinvar: '' [] s"
proof (induction s rule: remove_clinvar.induct)
  case (1 s)
  show ?case
  proof (cases "s = []")
    case True
    then show ?thesis by (simp add: remove_clinvar.simps [of "[]"])
  next
    case False
    note step = str_replace_clinvar_step [OF False]
    show ?thesis
    proof (cases "take 9 s = ''clinvar: ''")
      case True
      with False have "remove_clinvar s = remove_clinvar (drop 9 s)"
        by (subst remove_clinvar.simps) simp
      also from False True have "\<dots> = str_replace ''clinvar: '' [] (drop 9 s)"
        by (rule "1.IH"(1))
      also from True step have "\<dots> = str_replace ''clinvar: '' [] s" by simp
      finally show ?thesis .
    next
      case nopre: False
      with False have "remove_clinvar s = hd s # remove_clinvar (tl s)"
        by (subst remove_clinvar.simps) simp
      also have "remove_clinvar (tl s) = str_replace ''clinvar: '' [] (tl s)"
        using False nopre by (rule "1.IH"(2))
      then have "hd s # remove_clinvar (tl s) = hd s # str_replace ''clinvar: '' [] (tl s)"
        by simp
      also from nopre step have "\<dots> = str_replace ''clinvar: '' [] s" by simp
      finally show ?thesis .
    qed
  qed
qed

lemma clinvar_keys_distinct: "distinct (map fst CLINVAR_PRIORITY)"
  by code_simp

lemma set_recognized_tiers:
  "set (recognized_tiers c) =
     set (List.map_filter (\<lambda>part. map_of CLINVAR_PRIORITY (strip part)) (split_on (CHR ''|'') c))"
  using clinvar_keys_distinct
  by (auto simp: recognized_tiers_def set_map_filter_conv pipe_fields_split_on trim_strip)

lemma minimum_or_default_set: "set xs = set ys \<Longrightarrow> minimum_or_default xs = minimum_or_default ys"
proof -
  assume eq: "set xs = set ys"
  then have "xs = [] \<longleftrightarrow> ys = []" by (metis set_empty)
  with eq show ?thesis by (simp add: minimum_or_default_def)
qed

text \<open>The two branches of the resolver, the piped one and the direct lookup, as one
  minimum over the tiers that its own calls find.\<close>

lemma get_clinvar_priority_tiers:
  assumes "\<not> isna v"
  shows "get_clinvar_priority v =
     Inr (minimum_or_default
       (List.map_filter (\<lambda>part. map_of CLINVAR_PRIORITY (strip part))
          (split_on (CHR ''|'') (strip (str_replace ''clinvar: '' [] (py_str v))))))"
proof -
  let ?c = "strip (str_replace ''clinvar: '' [] (py_str v))"
  show ?thesis
  proof (cases "str_contains ''|'' ?c")
    case True
    with assms show ?thesis
      by (simp add: get_clinvar_priority_def minimum_or_default_def Let_def py_min_Min)
  next
    case False
    then have "CHR ''|'' \<notin> set ?c" by (simp add: str_contains_char)
    then have sp: "split_on (CHR ''|'') ?c = [?c]" by (rule split_on_no_sep)
    have "List.map_filter (\<lambda>part. map_of CLINVAR_PRIORITY (strip part)) (split_on (CHR ''|'') ?c) =
        (case map_of CLINVAR_PRIORITY ?c of None \<Rightarrow> [] | Some p \<Rightarrow> [p])"
      by (simp add: sp strip_idem map_filter_simps split: option.splits)
    with assms False show ?thesis
      by (simp add: get_clinvar_priority_def minimum_or_default_def Let_def
          split: option.splits)
  qed
qed

lemma get_clinvar_priority_Boolean: "get_clinvar_priority (Boolean b) = Inr 6"
proof (cases b)
  case True
  have "get_clinvar_priority (Boolean True) = Inr 6" by code_simp
  with True show ?thesis by simp
next
  case False
  have "get_clinvar_priority (Boolean False) = Inr 6" by code_simp
  with False show ?thesis by simp
qed

lemma get_clinvar_priority_rule: "get_clinvar_priority v = Inr (consensus_rule v)"
proof (cases v)
  case NaN
  then show ?thesis by (simp add: get_clinvar_priority_def isna_def consensus_rule_def)
next
  case (Text s)
  then have "\<not> isna v" by (simp add: isna_def)
  from get_clinvar_priority_tiers [OF this] Text
  have "get_clinvar_priority v =
     Inr (minimum_or_default
       (List.map_filter (\<lambda>part. map_of CLINVAR_PRIORITY (strip part))
          (split_on (CHR ''|'') (strip (str_replace ''clinvar: '' [] s)))))"
    by (simp add: py_str_def)
  also have "\<dots> = Inr (minimum_or_default (recognized_tiers (trim (remove_clinvar s))))"
    using minimum_or_default_set [OF set_recognized_tiers [of "strip (str_replace ''clinvar: '' [] s)"]]
    by (simp add: trim_strip remove_clinvar_str_replace)
  finally show ?thesis using Text by (simp add: consensus_rule_def)
next
  case (Boolean b)
  then show ?thesis by (simp add: get_clinvar_priority_Boolean consensus_rule_def)
qed


text \<open>Where \<^verbatim>\<open>clinvar: \<close> occurs at the start of the text only, or not at all, removing
  every occurrence is stripping the prefix.\<close>

lemma str_replace_absent:
  "\<not> str_contains old s \<Longrightarrow> old \<noteq> [] \<Longrightarrow> str_replace old [] s = s"
  by (induction s) auto

lemma remove_clinvar_prefix:
  assumes "\<not> (\<exists>a b. strip_clinvar_prefix s = a @ ''clinvar: '' @ b)"
  shows "remove_clinvar s = strip_clinvar_prefix s"
proof -
  from assms have absent: "\<not> str_contains ''clinvar: '' (strip_clinvar_prefix s)"
    by (simp add: str_contains_iff)
  have ne: "''clinvar: '' \<noteq> []" by simp
  show ?thesis
  proof (cases "take 9 s = ''clinvar: ''")
    case True
    then have "s \<noteq> []" by auto
    from str_replace_clinvar_step [OF this] True
    have "str_replace ''clinvar: '' [] s = str_replace ''clinvar: '' [] (drop 9 s)" by simp
    also from absent True have "\<not> str_contains ''clinvar: '' (drop 9 s)"
      by (simp add: strip_clinvar_prefix_def)
    then have "str_replace ''clinvar: '' [] (drop 9 s) = drop 9 s"
      using ne by (rule str_replace_absent)
    finally show ?thesis using True
      by (simp add: remove_clinvar_str_replace strip_clinvar_prefix_def)
  next
    case False
    with absent have "\<not> str_contains ''clinvar: '' s" by (simp add: strip_clinvar_prefix_def)
    then have "str_replace ''clinvar: '' [] s = s" using ne by (rule str_replace_absent)
    with False show ?thesis
      by (simp add: remove_clinvar_str_replace strip_clinvar_prefix_def)
  qed
qed

text \<open>
  Claim C6, as amended. For every consensus cell the resolver returns the minimum tier
  over the recognized parts of the pipe-separated text, after every occurrence of
  \<^verbatim>\<open>clinvar: \<close> is removed and the blanks around the text and around each part are
  stripped, and tier 6 when no part is recognized or the cell is missing. Where
  \<^verbatim>\<open>clinvar: \<close> occurs as a prefix only, or not at all, this is the rule of the claim, which
  strips the prefix. In particular \<^verbatim>\<open>Benign|Pathogenic\<close> gets the tier of
  \<^verbatim>\<open>Pathogenic\<close> alone, which is 1.
\<close>

theorem get_clinvar_priority_minimum:
  "get_clinvar_priority v = Inr (consensus_rule v)
   \<and> (\<not> (\<exists>a b. strip_clinvar_prefix s = a @ ''clinvar: '' @ b) \<longrightarrow>
        get_clinvar_priority (Text s) = Inr (consensus_prefix_rule (Text s)))
   \<and> get_clinvar_priority NaN = Inr 6
   \<and> get_clinvar_priority (Text ''no such label|nor this'') = Inr 6
   \<and> get_clinvar_priority (Text ''Benign|Pathogenic'') = get_clinvar_priority (Text ''Pathogenic'')
   \<and> get_clinvar_priority (Text ''Pathogenic'') = Inr 1
   \<and> get_clinvar_priority (Text ''Likely_pathogenic|Benign|Uncertain_significance'') = Inr 2
   \<and> get_clinvar_priority (Text '' Benign | Likely_benign '') = Inr 7
   \<and> get_clinvar_priority (Text ''clinvar: Benign|Uncertain_significance '') = Inr 4"
proof -
  have 1: "get_clinvar_priority v = Inr (consensus_rule v)" by (rule get_clinvar_priority_rule)
  have 2: "get_clinvar_priority (Text s) = Inr (consensus_prefix_rule (Text s))"
    if "\<not> (\<exists>a b. strip_clinvar_prefix s = a @ ''clinvar: '' @ b)"
    using remove_clinvar_prefix [OF that] get_clinvar_priority_rule [of "Text s"]
    by (simp add: consensus_rule_def consensus_prefix_rule_def)
  have 3: "get_clinvar_priority NaN = Inr 6"
    "get_clinvar_priority (Text ''no such label|nor this'') = Inr 6"
    "get_clinvar_priority (Text ''Benign|Pathogenic'') = Inr 1"
    "get_clinvar_priority (Text ''Pathogenic'') = Inr 1"
    "get_clinvar_priority (Text ''Likely_pathogenic|Benign|Uncertain_significance'') = Inr 2"
    "get_clinvar_priority (Text '' Benign | Likely_benign '') = Inr 7"
    "get_clinvar_priority (Text ''clinvar: Benign|Uncertain_significance '') = Inr 4"
    by code_simp+
  from 1 2 3 show ?thesis by simp
qed

theorem get_clinvar_priority_minimum_witness:
  "\<not> str_contains ''clinvar: '' (strip_clinvar_prefix ''clinvar: Benign | Likely_benign'')
   \<and> get_clinvar_priority (Text ''clinvar: Benign | Likely_benign'') = Inr 7
   \<and> consensus_prefix_rule (Text ''clinvar: Benign | Likely_benign'') = 7
   \<and> consensus_rule (Text ''clinvar: Benign | Likely_benign'') = 7"
proof -
  let ?s = "''clinvar: Benign | Likely_benign''"
  have absent: "\<not> str_contains ''clinvar: '' (strip_clinvar_prefix ?s)" by code_simp
  then have hyp: "\<not> (\<exists>a b. strip_clinvar_prefix ?s = a @ ''clinvar: '' @ b)"
    using str_contains_iff [of "''clinvar: ''" "strip_clinvar_prefix ?s"] by blast
  have seven: "consensus_prefix_rule (Text ?s) = 7" by code_simp
  from get_clinvar_priority_minimum [of "Text ?s" ?s] hyp
  have "get_clinvar_priority (Text ?s) = Inr (consensus_rule (Text ?s))"
    and "get_clinvar_priority (Text ?s) = Inr (consensus_prefix_rule (Text ?s))"
    by blast+
  with absent seven show ?thesis by simp
qed

text \<open>
  Claim C6 as stated fails where \<^verbatim>\<open>clinvar: \<close> occurs beyond the prefix: the resolver
  removes every occurrence, the rule of the claim strips the prefix once. For
  \<^verbatim>\<open>clinvar: clinvar: Benign\<close> the resolver finds \<^verbatim>\<open>Benign\<close>, tier 8, where the rule of the
  claim is left with the unrecognized \<^verbatim>\<open>clinvar: Benign\<close>, tier 6; for
  \<^verbatim>\<open>Benign|clinvar: Pathogenic\<close> the resolver returns 1 and the rule of the claim 8.
\<close>

theorem clinvar_prefix_counterexample:
  "get_clinvar_priority (Text ''clinvar: clinvar: Benign'') = Inr 8
   \<and> consensus_prefix_rule (Text ''clinvar: clinvar: Benign'') = 6
   \<and> get_clinvar_priority (Text ''Benign|clinvar: Pathogenic'') = Inr 1
   \<and> consensus_prefix_rule (Text ''Benign|clinvar: Pathogenic'') = 8"
  by code_simp

text \<open>
  Claim C10. The empty text is an entry of the consensus table, with tier 6. So when the
  cleaned consensus text ends with a pipe or holds two pipes in a row, and every
  recognized part that is not empty has a tier above 6, the result is 6:
  \<^verbatim>\<open>Benign|\<close> gets tier 6 while \<^verbatim>\<open>Benign\<close> alone gets tier 8.
\<close>

theorem get_clinvar_priority_empty_segment:
  assumes c: "c = strip (str_replace ''clinvar: '' [] s)"
    and pipe: "suffix ''|'' c \<or> str_contains ''||'' c"
    and above: "\<forall>part\<in>set (split_on (CHR ''|'') c). \<forall>t.
        strip part \<noteq> [] \<and> map_of CLINVAR_PRIORITY (strip part) = Some t \<longrightarrow> 6 < t"
  shows "get_clinvar_priority (Text s) = Inr 6"
proof -
  let ?f = "\<lambda>part. map_of CLINVAR_PRIORITY (strip part)"
  let ?ps = "List.map_filter ?f (split_on (CHR ''|'') c)"
  from pipe have piped: "str_contains ''|'' c"
  proof
    assume "suffix ''|'' c"
    then show ?thesis by (auto simp: suffix_def str_contains_char)
  next
    assume "str_contains ''||'' c"
    then show ?thesis by (auto simp: str_contains_iff str_contains_char)
  qed
  from pipe have "[] \<in> set (split_on (CHR ''|'') c)"
    using split_on_trailing split_on_doubled by blast
  moreover have "?f [] = Some 6" by (simp add: strip_Nil clinvar_empty_label)
  ultimately have six: "6 \<in> set ?ps" by (auto simp: set_map_filter_conv)
  then have ne: "?ps \<noteq> []" by auto
  have "6 \<le> t" if "t \<in> set ?ps" for t
  proof -
    from that obtain part where part: "part \<in> set (split_on (CHR ''|'') c)" and t: "?f part = Some t"
      by (auto simp: set_map_filter_conv)
    show ?thesis
    proof (cases "strip part = []")
      case True
      with t show ?thesis by (simp add: clinvar_empty_label)
    next
      case False
      with above part t have "6 < t" by blast
      then show ?thesis by simp
    qed
  qed
  with six have "Min (set ?ps) = 6" by (intro Min_eqI) auto
  with ne piped c show ?thesis
    by (simp add: get_clinvar_priority_def isna_def py_str_def Let_def py_min_Min)
qed

theorem get_clinvar_priority_empty_segment_witness:
  "get_clinvar_priority (Text ''Benign|'') = Inr 6 \<and> get_clinvar_priority (Text ''Benign'') = Inr 8"
proof -
  have c: "''Benign|'' = strip (str_replace ''clinvar: '' [] ''Benign|'')" by code_simp
  have pipe: "suffix ''|'' ''Benign|'' \<or> str_contains ''||'' ''Benign|''" by code_simp
  have parts: "split_on (CHR ''|'') ''Benign|'' = [''Benign'', []]" by code_simp
  have benign: "map_of CLINVAR_PRIORITY (strip ''Benign'') = Some 8" by code_simp
  have above: "\<forall>part\<in>set (split_on (CHR ''|'') ''Benign|''). \<forall>t.
        strip part \<noteq> [] \<and> map_of CLINVAR_PRIORITY (strip part) = Some t \<longrightarrow> 6 < t"
    unfolding parts using benign by (simp add: strip_Nil)
  have "get_clinvar_priority (Text ''Benign'') = Inr 8" by code_simp
  with get_clinvar_priority_empty_segment [OF c pipe above] show ?thesis by simp
qed

section \<open>Properties of the confidence score\<close>

lemma re_match_here_digits:
  assumes "re_match_here s = Some m"
  shows "fst (snd m) \<noteq> [] \<and> list_all is_digit (fst (snd m))"
proof -
  from assms obtain r2 where "fst (snd m) = takeWhile is_digit r2" and "fst (snd m) \<noteq> []"
    by (auto simp: re_match_here_def Let_def split: if_splits list.splits)
  moreover have "list_all is_digit (takeWhile is_digit r2)"
    by (auto simp: list_all_iff dest: set_takeWhileD)
  ultimately show ?thesis by simp
qed

lemma re_findall_digits:
  "m \<in> set (re_findall s) \<Longrightarrow> snd m \<noteq> [] \<and> list_all is_digit (snd m)"
proof (induction s rule: re_findall.induct)
  case 1
  then show ?case by simp
next
  case (2 c cs)
  show ?case
  proof (cases "re_match_here (c # cs)")
    case None
    with 2 show ?thesis by simp
  next
    case (Some m')
    with 2 re_match_here_digits [OF Some] show ?thesis by auto
  qed
qed

lemma py_int_digits:
  "s \<noteq> [] \<and> list_all is_digit s \<and> length s \<le> int_max_str_digits \<Longrightarrow>
     py_int s = Inr (digits_value s)"
  by (simp add: py_int_def)

lemma py_int_Inr: "py_int s = Inr n \<Longrightarrow> n = digits_value s"
  by (simp add: py_int_def split: if_splits)


text \<open>The dictionary after the loop, when the loop ends without an exception.\<close>

lemma fill_counts_Inr:
  "fill_counts ms counts = Inr result \<Longrightarrow>
     result = foldl (\<lambda>d m. dict_set d (fst m) (digits_value (snd m))) counts ms"
proof (induction ms arbitrary: counts)
  case Nil
  then show ?case by simp
next
  case (Cons m ms)
  from Cons.prems obtain n where n: "py_int (snd m) = Inr n"
    and rest: "fill_counts ms (dict_set counts (fst m) n) = Inr result"
    by (auto split: sum.splits)
  from n have "n = digits_value (snd m)" by (rule py_int_Inr)
  with Cons.IH [OF rest] show ?case by simp
qed

lemma fill_counts_foldl:
  assumes "\<forall>m\<in>set ms. snd m \<noteq> [] \<and> list_all is_digit (snd m)
      \<and> length (snd m) \<le> int_max_str_digits"
  shows "fill_counts ms counts =
     Inr (foldl (\<lambda>d m. dict_set d (fst m) (digits_value (snd m))) counts ms)"
  using assms by (induction ms arbitrary: counts) (simp_all add: py_int_digits)


lemma map_of_dict_set: "map_of (dict_set d k v) = (map_of d)(k \<mapsto> v)"
  by (induction d) (auto simp: fun_eq_iff)

lemma keys_dict_set: "set (map fst (dict_set d k v)) = insert k (set (map fst d))"
  by (induction d) auto

lemma distinct_dict_set: "distinct (map fst d) \<Longrightarrow> distinct (map fst (dict_set d k v))"
  by (induction d) (auto simp: keys_dict_set simp flip: set_map)

lemma map_of_foldl_dict_set:
  "map_of (foldl (\<lambda>d m. dict_set d (fst m) (g m)) counts ms) =
     map_of (rev (map (\<lambda>m. (fst m, g m)) ms) @ counts)"
proof (induction ms arbitrary: counts)
  case Nil
  show ?case by simp
next
  case (Cons m ms)
  have "map_of (foldl (\<lambda>d m. dict_set d (fst m) (g m)) counts (m # ms)) =
      map_of (rev (map (\<lambda>m. (fst m, g m)) ms) @ dict_set counts (fst m) (g m))"
    by (simp add: Cons.IH)
  also have "\<dots> = map_of (dict_set counts (fst m) (g m)) ++ map_of (rev (map (\<lambda>m. (fst m, g m)) ms))"
    by (simp only: map_of_append)
  also have "\<dots> = map_of (rev (map (\<lambda>m. (fst m, g m)) (m # ms)) @ counts)"
    by (simp add: map_of_dict_set map_of_append fun_eq_iff map_add_def split: option.splits)
  finally show ?case .
qed

lemma distinct_foldl_dict_set:
  "distinct (map fst counts) \<Longrightarrow>
   distinct (map fst (foldl (\<lambda>d m. dict_set d (fst m) (g m)) counts ms))"
  by (induction ms arbitrary: counts) (simp_all add: distinct_dict_set)

lemma foldl_add_sum_list:
  "foldl (\<lambda>score item. score + h item) a xs = a + sum_list (map h xs)" for a :: int
  by (induction xs arbitrary: a) simp_all

lemma weighted_score_sum:
  "weighted_score counts = sum_list (map (\<lambda>item. weight_of (fst item) * snd item) counts)"
  by (simp add: weighted_score_def foldl_add_sum_list)

lemma keys_foldl_dict_set:
  "set (map fst (foldl (\<lambda>d m. dict_set d (fst m) (g m)) counts ms)) =
     set (map fst counts) \<union> set (map fst ms)"
proof (induction ms arbitrary: counts)
  case Nil
  show ?case by simp
next
  case (Cons m ms)
  have "set (map fst (foldl (\<lambda>d m. dict_set d (fst m) (g m)) counts (m # ms))) =
      set (map fst (dict_set counts (fst m) (g m))) \<union> set (map fst ms)"
    by (simp only: foldl_Cons Cons.IH)
  also have "\<dots> = set (map fst counts) \<union> set (map fst (m # ms))"
    by (simp only: keys_dict_set) auto
  finally show ?case .
qed

text \<open>A sum over the items of a dictionary is a sum over its keys.\<close>

lemma sum_list_items:
  fixes H :: "'k \<Rightarrow> int \<Rightarrow> int"
  assumes "distinct (map fst xs)"
  shows "sum_list (map (\<lambda>item. H (fst item) (snd item)) xs) =
     (\<Sum>k\<in>set (map fst xs). H k (the (map_of xs k)))"
  using assms
proof (induction xs)
  case Nil
  show ?case by simp
next
  case (Cons x xs)
  from Cons.prems have new: "fst x \<notin> set (map fst xs)" and d: "distinct (map fst xs)"
    by simp_all
  have "(\<Sum>k\<in>set (map fst (x # xs)). H k (the (map_of (x # xs) k))) =
      H (fst x) (snd x) + (\<Sum>k\<in>set (map fst xs). H k (the (map_of (x # xs) k)))"
    using new by simp
  also have "(\<Sum>k\<in>set (map fst xs). H k (the (map_of (x # xs) k))) =
      (\<Sum>k\<in>set (map fst xs). H k (the (map_of xs k)))"
  proof (intro sum.cong refl)
    fix k assume "k \<in> set (map fst xs)"
    with new have "k \<noteq> fst x" by blast
    then show "H k (the (map_of (x # xs) k)) = H k (the (map_of xs k))" by simp
  qed
  finally show ?case using Cons.IH [OF d] by simp
qed

text \<open>In the reversed list of the pairs, a label is found with the count of its last
  pair.\<close>

lemma map_of_rev_last:
  "label \<in> set (map fst ms) \<Longrightarrow>
     map_of (rev (map (\<lambda>m. (fst m, g m)) ms)) label =
       Some (g (last (filter (\<lambda>m. fst m = label) ms)))"
proof (induction ms rule: rev_induct)
  case Nil
  then show ?case by simp
next
  case (snoc m ms)
  show ?case
  proof (cases "fst m = label")
    case True
    then show ?thesis by simp
  next
    case False
    with snoc show ?thesis by simp
  qed
qed

lemma sum_list_remdups:
  "sum_list (map f (remdups xs)) = (\<Sum>x\<in>set xs. f x)" for f :: "'a \<Rightarrow> int"
  using sum_list_distinct_conv_sum_set [of "remdups xs" f] by simp

text \<open>The total and the weighted sum of the dictionary that the loop builds are those of
  the rule: one contribution for every label, with its last count.\<close>

lemma counts_last_pairs:
  fixes ms :: "(string \<times> string) list"
  defines "counts \<equiv> foldl (\<lambda>d m. dict_set d (fst m) (digits_value (snd m))) [] ms"
  shows "counts_total counts = last_pairs_total ms"
    and "weighted_score counts = last_pairs_score ms"
proof -
  have d: "distinct (map fst counts)"
    unfolding counts_def by (rule distinct_foldl_dict_set) simp
  have keys: "set (map fst counts) = set (map fst ms)"
    unfolding counts_def by (simp only: keys_foldl_dict_set) simp
  have val: "the (map_of counts label) = last_count ms label" if "label \<in> set (map fst ms)"
    for label
  proof -
    have "map_of counts = map_of (rev (map (\<lambda>m. (fst m, digits_value (snd m))) ms))"
      unfolding counts_def
      using map_of_foldl_dict_set [of "\<lambda>m. digits_value (snd m)" "[]" ms] by simp
    with map_of_rev_last [OF that, of "\<lambda>m. digits_value (snd m)"] show ?thesis
      by (simp add: last_count_def)
  qed
  have "counts_total counts = sum_list (map (\<lambda>item. (\<lambda>k v. v) (fst item) (snd item)) counts)"
    by (simp add: counts_total_def)
  also have "\<dots> = (\<Sum>k\<in>set (map fst counts). the (map_of counts k))"
    by (rule sum_list_items [OF d])
  also have "\<dots> = (\<Sum>k\<in>set (map fst ms). last_count ms k)"
    unfolding keys by (intro sum.cong refl val)
  also have "\<dots> = last_pairs_total ms"
    by (simp only: last_pairs_total_def sum_list_remdups)
  finally show "counts_total counts = last_pairs_total ms" .
  have "weighted_score counts =
      sum_list (map (\<lambda>item. (\<lambda>k v. weight_of k * v) (fst item) (snd item)) counts)"
    by (simp add: weighted_score_sum)
  also have "\<dots> = (\<Sum>k\<in>set (map fst counts). weight_of k * the (map_of counts k))"
    by (rule sum_list_items [OF d])
  also have "\<dots> = (\<Sum>k\<in>set (map fst ms). weight_of k * last_count ms k)"
    unfolding keys by (intro sum.cong refl) (simp add: val)
  also have "\<dots> = last_pairs_score ms"
    by (simp only: last_pairs_score_def sum_list_remdups)
  finally show "weighted_score counts = last_pairs_score ms" .
qed

text \<open>With pairwise distinct labels, the last count of a label is its only count.\<close>

lemma filter_label_distinct:
  "distinct (map fst ms) \<Longrightarrow> m \<in> set ms \<Longrightarrow> filter (\<lambda>m'. fst m' = fst m) ms = [m]"
proof (induction ms)
  case Nil
  then show ?case by simp
next
  case (Cons x ms)
  show ?case
  proof (cases "m = x")
    case True
    from Cons.prems have "fst x \<notin> fst ` set ms" by simp
    then have "\<forall>m'\<in>set ms. fst m' \<noteq> fst x" by (metis imageI)
    then have "filter (\<lambda>m'. fst m' = fst x) ms = []" by (simp add: filter_empty_conv)
    with True show ?thesis by simp
  next
    case False
    with Cons.prems have m: "m \<in> set ms" by simp
    from Cons.prems have "fst x \<notin> fst ` set ms" by simp
    with m have "fst x \<noteq> fst m" by (metis imageI)
    with Cons m show ?thesis by simp
  qed
qed

lemma last_pairs_distinct:
  assumes "distinct (map fst ms)"
  shows "last_pairs_total ms = all_pairs_total ms" and "last_pairs_score ms = all_pairs_score ms"
proof -
  have lc: "last_count ms (fst m) = digits_value (snd m)" if "m \<in> set ms" for m
    using filter_label_distinct [OF assms that] by (simp add: last_count_def)
  from assms have rd: "remdups (map fst ms) = map fst ms" by (rule distinct_remdups_id)
  show "last_pairs_total ms = all_pairs_total ms"
    unfolding last_pairs_total_def all_pairs_total_def rd map_map
    by (intro arg_cong [where f = sum_list] map_cong refl) (simp add: lc)
  show "last_pairs_score ms = all_pairs_score ms"
    unfolding last_pairs_score_def all_pairs_score_def rd map_map
    by (intro arg_cong [where f = sum_list] map_cong refl) (simp add: lc)
qed

lemma is_digit_val: "is_digit c \<Longrightarrow> 0 \<le> digit_val c"
  by (auto simp: is_digit_def digit_val_def)

lemma foldl_digits_nonneg:
  "0 \<le> a \<Longrightarrow> list_all is_digit ds \<Longrightarrow> 0 \<le> foldl (\<lambda>a c. 10 * a + digit_val c) a ds"
proof (induction ds arbitrary: a)
  case Nil
  then show ?case by simp
next
  case (Cons c ds)
  from Cons.prems have "0 \<le> 10 * a + digit_val c" using is_digit_val [of c] by simp
  with Cons show ?case by simp
qed

lemma digits_value_nonneg: "list_all is_digit ds \<Longrightarrow> 0 \<le> digits_value ds"
  by (simp add: digits_value_def foldl_digits_nonneg)

lemma vals_dict_set: "set (map snd (dict_set d k v)) \<subseteq> insert v (set (map snd d))"
  by (induction d) auto

lemma foldl_dict_set_nonneg:
  assumes "\<forall>m\<in>set ms. 0 \<le> g m" and "\<forall>item\<in>set counts. (0::int) \<le> snd item"
  shows "\<forall>item\<in>set (foldl (\<lambda>d m. dict_set d (fst m) (g m)) counts ms). 0 \<le> snd item"
  using assms
proof (induction ms arbitrary: counts)
  case Nil
  then show ?case by simp
next
  case (Cons m ms)
  have "\<forall>item\<in>set (dict_set counts (fst m) (g m)). 0 \<le> snd item"
  proof
    fix item assume "item \<in> set (dict_set counts (fst m) (g m))"
    then have "snd item \<in> set (map snd (dict_set counts (fst m) (g m)))" by simp
    then have "snd item \<in> insert (g m) (set (map snd counts))"
      by (rule subsetD [OF vals_dict_set])
    with Cons.prems show "0 \<le> snd item" by auto
  qed
  with Cons show ?case by simp
qed

lemma weight_of_range: "- 10 \<le> weight_of l \<and> weight_of l \<le> 8"
  by (simp add: weight_of_def weights_def)

lemma weighted_score_bounds:
  assumes "\<forall>item\<in>set counts. 0 \<le> snd item"
  shows "- 10 * counts_total counts \<le> weighted_score counts
       \<and> weighted_score counts \<le> 8 * counts_total counts"
  using assms
proof (induction counts)
  case Nil
  show ?case by (simp add: weighted_score_sum counts_total_def)
next
  case (Cons item counts)
  from Cons.prems have n: "0 \<le> snd item" by simp
  have "- 10 * snd item \<le> weight_of (fst item) * snd item"
    using weight_of_range [of "fst item"] n by (intro mult_right_mono) simp_all
  moreover have "weight_of (fst item) * snd item \<le> 8 * snd item"
    using weight_of_range [of "fst item"] n by (intro mult_right_mono) simp_all
  moreover from Cons have "- 10 * counts_total counts \<le> weighted_score counts
       \<and> weighted_score counts \<le> 8 * counts_total counts" by simp
  ultimately show ?case
    by (simp add: weighted_score_sum counts_total_def)
qed

lemma counts_total_nonneg: "\<forall>item\<in>set counts. 0 \<le> snd item \<Longrightarrow> 0 \<le> counts_total counts"
  by (induction counts) (simp_all add: counts_total_def)

lemma truediv_bounds:
  assumes "0 < b" and "l * b \<le> a" and "a \<le> u * b"
  shows "py_truediv a b = Inr (of_int a / of_int b)"
    and "of_int l \<le> (of_int a / of_int b :: rat)" and "(of_int a / of_int b :: rat) \<le> of_int u"
proof -
  from assms(1) show "py_truediv a b = Inr (of_int a / of_int b)" by (simp add: py_truediv_def)
  from assms(1) have b: "(0::rat) < of_int b" by simp
  from assms(2) have "(of_int (l * b) :: rat) \<le> of_int a" by (simp only: of_int_le_iff)
  then show "of_int l \<le> (of_int a / of_int b :: rat)" using b by (simp add: pos_le_divide_eq)
  from assms(3) have "(of_int a :: rat) \<le> of_int (u * b)" by (simp only: of_int_le_iff)
  then show "(of_int a / of_int b :: rat) \<le> of_int u" using b by (simp add: pos_divide_le_eq)
qed

lemma re_findall_nan: "re_findall (py_str NaN) = []"
  by code_simp

lemma re_findall_Boolean: "re_findall (py_str (Boolean b)) = []"
proof (cases b)
  case True
  have "re_findall (py_str (Boolean True)) = []" by code_simp
  with True show ?thesis by simp
next
  case False
  have "re_findall (py_str (Boolean False)) = []" by code_simp
  with False show ?thesis by simp
qed

text \<open>The score is 0 for a missing cell; for every other cell it is decided by the pairs
  that the pattern extracts from the text of the cell.\<close>

lemma parse_clnsigconf_matches:
  "parse_clnsigconf v =
     (if re_findall (py_str v) = [] then Inr 0
      else (case fill_counts (re_findall (py_str v)) [] of
              Inl e \<Rightarrow> Inl e
            | Inr counts \<Rightarrow>
                if counts_total counts = 0 then Inr 0
                else py_truediv (weighted_score counts) (counts_total counts)))"
proof (cases v)
  case NaN
  then show ?thesis by (simp add: parse_clnsigconf_def isna_def re_findall_nan)
next
  case (Text s)
  then show ?thesis
    by (cases "s = []")
      (simp_all add: parse_clnsigconf_def isna_def py_str_def Let_def split: sum.splits)
next
  case (Boolean b)
  then show ?thesis
    using re_findall_Boolean [of b] by (simp add: parse_clnsigconf_def isna_def Let_def)
qed

lemma parse_clnsigconf_range:
  assumes "parse_clnsigconf v = Inr x"
  shows "- 10 \<le> x \<and> x \<le> 8"
proof -
  let ?ms = "re_findall (py_str v)"
  show ?thesis
  proof (cases "?ms = []")
    case True
    with assms show ?thesis by (simp add: parse_clnsigconf_matches)
  next
    case False
    with assms obtain counts where fc: "fill_counts ?ms [] = Inr counts"
      by (auto simp: parse_clnsigconf_matches split: sum.splits)
    then have counts: "counts = foldl (\<lambda>d m. dict_set d (fst m) (digits_value (snd m))) [] ?ms"
      by (rule fill_counts_Inr)
    have "\<forall>m\<in>set ?ms. 0 \<le> digits_value (snd m)"
      using re_findall_digits by (auto intro: digits_value_nonneg)
    then have nn: "\<forall>item\<in>set counts. 0 \<le> snd item"
      unfolding counts by (intro foldl_dict_set_nonneg) simp_all
    show ?thesis
    proof (cases "counts_total counts = 0")
      case True
      with assms False fc show ?thesis by (simp add: parse_clnsigconf_matches)
    next
      case nz: False
      with counts_total_nonneg [OF nn] have pos: "0 < counts_total counts" by simp
      from weighted_score_bounds [OF nn]
      have lo: "- 10 * counts_total counts \<le> weighted_score counts"
        and hi: "weighted_score counts \<le> 8 * counts_total counts" by simp_all
      from truediv_bounds [OF pos lo hi] assms False fc nz show ?thesis
        by (simp add: parse_clnsigconf_matches)
    qed
  qed
qed

text \<open>The scorer and the rule: within the limit of \<^verbatim>\<open>int\<close> the score is the rule's, and
  beyond it the scorer raises.\<close>

lemma parse_clnsigconf_rule:
  assumes "counts_within_limit v"
  shows "parse_clnsigconf v = Inr (confidence_rule (re_findall (py_str v)))"
proof -
  let ?ms = "re_findall (py_str v)"
  let ?counts = "foldl (\<lambda>d m. dict_set d (fst m) (digits_value (snd m))) [] ?ms"
  from assms have "\<forall>m\<in>set ?ms. snd m \<noteq> [] \<and> list_all is_digit (snd m)
      \<and> length (snd m) \<le> int_max_str_digits"
    using re_findall_digits by (auto simp: counts_within_limit_def list_all_iff)
  then have fc: "fill_counts ?ms [] = Inr ?counts" by (rule fill_counts_foldl)
  note lp = counts_last_pairs [of ?ms]
  show ?thesis
  proof (cases "?ms = [] \<or> last_pairs_total ?ms = 0")
    case True
    with fc lp(1) show ?thesis
      by (auto simp: parse_clnsigconf_matches confidence_rule_def)
  next
    case False
    with fc lp show ?thesis
      by (simp add: parse_clnsigconf_matches confidence_rule_def py_truediv_def)
  qed
qed





text \<open>
  Claim C5, as amended. The counts are kept in a dictionary whose keys are the labels
  that the pattern extracts, so a label contributes once, with the count of the last
  pair that carries it: for a cell whose counts \<^verbatim>\<open>int\<close> converts (at most 4300 digits
  each), the score is the sum of weight times last count over the labels, divided by
  the sum of the last counts, and 0 when there is no pair or the total is 0. When the
  extracted labels are pairwise distinct, these sums are the sums over all pairs: every
  pair contributes its own count.
\<close>

theorem parse_clnsigconf_last_pair_wins:
  "(counts_within_limit (Text s) \<longrightarrow>
      parse_clnsigconf (Text s) = Inr (confidence_rule (re_findall s)))
   \<and> (distinct (map fst (re_findall s)) \<longrightarrow>
        last_pairs_total (re_findall s) = all_pairs_total (re_findall s)
        \<and> last_pairs_score (re_findall s) = all_pairs_score (re_findall s))"
  using parse_clnsigconf_rule [of "Text s"] last_pairs_distinct [of "re_findall s"]
  by (simp add: py_str_def)

theorem parse_clnsigconf_last_pair_wins_witness:
  "counts_within_limit (Text ''Pathogenic(1)Benign(1)Pathogenic(3)'')
   \<and> last_pairs_total (re_findall ''Pathogenic(1)Benign(1)Pathogenic(3)'') = 4
   \<and> last_pairs_score (re_findall ''Pathogenic(1)Benign(1)Pathogenic(3)'') = - 22
   \<and> parse_clnsigconf (Text ''Pathogenic(1)Benign(1)Pathogenic(3)'') = Inr (- 11 / 2)
   \<and> distinct (map fst (re_findall ''Likely_benign(2)|Benign(3)''))
   \<and> last_pairs_total (re_findall ''Likely_benign(2)|Benign(3)'') = 5
   \<and> all_pairs_total (re_findall ''Likely_benign(2)|Benign(3)'') = 5
   \<and> last_pairs_score (re_findall ''Likely_benign(2)|Benign(3)'') = 10
   \<and> all_pairs_score (re_findall ''Likely_benign(2)|Benign(3)'') = 10"
proof -
  have lim: "counts_within_limit (Text ''Pathogenic(1)Benign(1)Pathogenic(3)'')" by code_simp
  have rule: "confidence_rule (re_findall ''Pathogenic(1)Benign(1)Pathogenic(3)'') = - 11 / 2"
    by code_simp
  have sums: "last_pairs_total (re_findall ''Pathogenic(1)Benign(1)Pathogenic(3)'') = 4"
    "last_pairs_score (re_findall ''Pathogenic(1)Benign(1)Pathogenic(3)'') = - 22"
    by code_simp+
  have d: "distinct (map fst (re_findall ''Likely_benign(2)|Benign(3)''))" by code_simp
  have all: "all_pairs_total (re_findall ''Likely_benign(2)|Benign(3)'') = 5"
    "all_pairs_score (re_findall ''Likely_benign(2)|Benign(3)'') = 10"
    by code_simp+
  from parse_clnsigconf_last_pair_wins [of "''Pathogenic(1)Benign(1)Pathogenic(3)''"] lim rule
  have a: "parse_clnsigconf (Text ''Pathogenic(1)Benign(1)Pathogenic(3)'') = Inr (- 11 / 2)"
    by simp
  from parse_clnsigconf_last_pair_wins [of "''Likely_benign(2)|Benign(3)''"] d all
  have b: "last_pairs_total (re_findall ''Likely_benign(2)|Benign(3)'') = 5"
    "last_pairs_score (re_findall ''Likely_benign(2)|Benign(3)'') = 10"
    by simp_all
  from lim sums a d b all show ?thesis by simp
qed

text \<open>
  Claim C5 as stated fails. In \<^verbatim>\<open>Pathogenic(1)Benign(1)Pathogenic(3)\<close> the label
  \<^verbatim>\<open>Pathogenic\<close> is extracted twice; the later pair overwrites the earlier one, the
  total is 4 and the weighted sum -22, and the score is -11/2, where the sums over all
  pairs are 5 and -32. In \<^verbatim>\<open>Benign(5)|Pathogenic(1)|Pathogenic(1)\<close> the label of the
  second and of the third pair is extracted as \<^verbatim>\<open>|Pathogenic\<close>; the total is 6 where the
  sum over all pairs is 7, and the score is 20/3 and not 40/7.
\<close>

theorem clnsigconf_repeated_label_counterexample:
  "parse_clnsigconf (Text ''Pathogenic(1)Benign(1)Pathogenic(3)'') = Inr (- 11 / 2)
   \<and> all_pairs_total (re_findall ''Pathogenic(1)Benign(1)Pathogenic(3)'') = 5
   \<and> all_pairs_score (re_findall ''Pathogenic(1)Benign(1)Pathogenic(3)'') = - 32
   \<and> all_pairs_rule (re_findall ''Pathogenic(1)Benign(1)Pathogenic(3)'') = - 32 / 5
   \<and> fill_counts (re_findall ''Pathogenic(1)Benign(1)Pathogenic(3)'') []
        = Inr [(''Pathogenic'', 3), (''Benign'', 1)]
   \<and> parse_clnsigconf (Text ''Benign(5)|Pathogenic(1)|Pathogenic(1)'') = Inr (20 / 3)
   \<and> all_pairs_total (re_findall ''Benign(5)|Pathogenic(1)|Pathogenic(1)'') = 7
   \<and> all_pairs_rule (re_findall ''Benign(5)|Pathogenic(1)|Pathogenic(1)'') = 40 / 7
   \<and> fill_counts (re_findall ''Benign(5)|Pathogenic(1)|Pathogenic(1)'') []
        = Inr [(''Benign'', 5), (''|Pathogenic'', 1)]"
  by code_simp

text \<open>
  Claim C7 at the input \<^verbatim>\<open>Pathogenic(1)|Benign(1)\<close>: the first group of the pattern takes
  every character that is no opening parenthesis, so the label of the second pair is
  \<^verbatim>\<open>|Benign\<close>, with the pipe. That label has no weight, and the score is
  (-10 + 0) / 2 = -5, where the claim says (-10 + 8) / 2 = -1.
\<close>

theorem parse_clnsigconf_pipe_label:
  "re_findall ''Pathogenic(1)|Benign(1)'' = [(''Pathogenic'', ''1''), (''|Benign'', ''1'')]
   \<and> weight_of ''|Benign'' = 0
   \<and> parse_clnsigconf (Text ''Pathogenic(1)|Benign(1)'') = Inr (- 5)"
  by code_simp

text \<open>The cases in which the confidence score is 0.\<close>

lemma parse_clnsigconf_zero_cases:
  "parse_clnsigconf NaN = Inr 0"
  "parse_clnsigconf (Text []) = Inr 0"
  "re_findall (py_str v) = [] \<Longrightarrow> parse_clnsigconf v = Inr 0"
  "fill_counts (re_findall (py_str v)) [] = Inr counts \<Longrightarrow> counts_total counts = 0 \<Longrightarrow>
     parse_clnsigconf v = Inr 0"
  by (simp_all add: parse_clnsigconf_matches re_findall_nan) (simp add: py_str_def)

section \<open>Properties of the predictor score\<close>

lemma cadd_block_inv: "in_silico_inv sc \<Longrightarrow> in_silico_inv (cadd_block r sc)"
  by (auto simp: in_silico_inv_def cadd_block_def split: sum.splits)

lemma sift_block_inv: "in_silico_inv sc \<Longrightarrow> in_silico_inv (sift_block r sc)"
  by (auto simp: in_silico_inv_def sift_block_def split: sum.splits)

lemma gerp_block_inv: "in_silico_inv sc \<Longrightarrow> in_silico_inv (gerp_block r sc)"
  by (auto simp: in_silico_inv_def gerp_block_def split: sum.splits)

lemma phylop_block_inv: "in_silico_inv sc \<Longrightarrow> in_silico_inv (phylop_block r sc)"
  by (auto simp: in_silico_inv_def phylop_block_def split: sum.splits)

lemma metasvm_block_inv: "in_silico_inv sc \<Longrightarrow> in_silico_inv (metasvm_block r sc)"
  by (auto simp: in_silico_inv_def metasvm_block_def Let_def)

lemma calculate_in_silico_score_range:
  "\<exists>x. calculate_in_silico_score r = Inr x \<and> - 2 \<le> x \<and> x \<le> 1"
proof -
  define sc where
    "sc = metasvm_block r (phylop_block r (gerp_block r (sift_block r (cadd_block r (0, 0)))))"
  have "in_silico_inv (0, 0)" by (simp add: in_silico_inv_def)
  then have "in_silico_inv sc"
    unfolding sc_def
    by (intro metasvm_block_inv phylop_block_inv gerp_block_inv sift_block_inv cadd_block_inv)
  then have inv: "0 \<le> snd sc" "- 2 * snd sc \<le> fst sc" "fst sc \<le> 1 * snd sc"
    by (simp_all add: in_silico_inv_def)
  show ?thesis
  proof (cases "snd sc > 0")
    case True
    from truediv_bounds [OF True inv(2) inv(3)] True show ?thesis
      by (simp add: calculate_in_silico_score_def sc_def [symmetric] Let_def)
  next
    case False
    then show ?thesis
      by (simp add: calculate_in_silico_score_def sc_def [symmetric] Let_def)
  qed
qed

text \<open>The predictor score when \<^verbatim>\<open>float\<close> raises for every numeric predictor and the
  categorical one is empty or the marker: no predictor is counted, the score is 0; and
  when the severity predictor alone is usable and at least 25, the score is -2.\<close>

lemma in_silico_no_usable_predictor:
  assumes "py_float (row_get r ''CADD_phred'' ''.'') = Inl e1"
    and "py_float (row_get r ''SIFT_score'' ''.'') = Inl e2"
    and "py_float (row_get r ''GERP++_RS'' ''.'') = Inl e3"
    and "py_float (row_get r ''phyloP46way_placental'' ''.'') = Inl e4"
    and "strip (py_str (row_get r ''MetaSVM_score'' [])) = [] \<or>
         strip (py_str (row_get r ''MetaSVM_score'' [])) = ''.''"
  shows "calculate_in_silico_score r = Inr 0"
  using assms
  by (auto simp: calculate_in_silico_score_def cadd_block_def sift_block_def gerp_block_def
      phylop_block_def metasvm_block_def Let_def)

lemma in_silico_single_severity:
  assumes "py_float (row_get r ''CADD_phred'' ''.'') = Inr cadd" and "float_ge cadd 25"
    and "py_float (row_get r ''SIFT_score'' ''.'') = Inl e2"
    and "py_float (row_get r ''GERP++_RS'' ''.'') = Inl e3"
    and "py_float (row_get r ''phyloP46way_placental'' ''.'') = Inl e4"
    and "strip (py_str (row_get r ''MetaSVM_score'' [])) = [] \<or>
         strip (py_str (row_get r ''MetaSVM_score'' [])) = ''.''"
  shows "calculate_in_silico_score r = Inr (- 2)"
  using assms
  by (auto simp: calculate_in_silico_score_def cadd_block_def sift_block_def gerp_block_def
      phylop_block_def metasvm_block_def Let_def py_truediv_def)

text \<open>
  Claim C8 at a row whose severity value is 30 and whose tolerance cell is missing
  (pandas read an empty field). \<^verbatim>\<open>float\<close> of the missing cell does not raise: it is the
  float not-a-number, no threshold applies, and the predictor is counted. The score is
  -2 / 2 = -1, where the claim skips the missing predictor and says -2. With the
  tolerance column absent, or its cell the marker \<^verbatim>\<open>.\<close>, the score is -2.
\<close>

theorem in_silico_missing_cell_counted:
  "py_float NaN = Inr NotANumber
   \<and> calculate_in_silico_score [(''CADD_phred'', Text ''30'')] = Inr (- 2)
   \<and> calculate_in_silico_score [(''CADD_phred'', Text ''30''), (''SIFT_score'', Text ''.'')]
        = Inr (- 2)
   \<and> calculate_in_silico_score [(''CADD_phred'', Text ''30''), (''SIFT_score'', NaN)]
        = Inr (- 1)"
  by code_simp

section \<open>Properties of the priority key\<close>

lemma apply_column_Inr:
  "apply_column f xs = Inr ys \<Longrightarrow>
     length ys = length xs \<and> (\<forall>n<length xs. f (xs ! n) = Inr (ys ! n))"
proof (induction xs arbitrary: ys)
  case Nil
  then show ?case by simp
next
  case (Cons x xs)
  from Cons.prems obtain y ys' where y: "f x = Inr y" and ys': "apply_column f xs = Inr ys'"
    and ys: "ys = y # ys'"
    by (auto split: sum.splits)
  from Cons.IH [OF ys'] have len: "length ys' = length xs"
    and nth: "\<forall>n<length xs. f (xs ! n) = Inr (ys' ! n)" by simp_all
  have "f ((x # xs) ! n) = Inr (ys ! n)" if "n < length (x # xs)" for n
    using that y nth ys by (cases n) simp_all
  with len ys show ?case by simp
qed


text \<open>The key of each row, when the three columns are there.\<close>

lemma final_priority_column_rows:
  assumes "final_priority_column df = Inr keys"
  shows "length keys = length (rows df)"
    and "n < length (rows df) \<Longrightarrow>
      \<exists>c s i. get_clinvar_priority (row_cell (rows df ! n) ''clinvar: Clinvar '') = Inr c
        \<and> parse_clnsigconf (row_cell (rows df ! n) ''CLNSIGCONF'') = Inr s
        \<and> calculate_in_silico_score (rows df ! n) = Inr i
        \<and> keys ! n =
            final_priority (get_acmg_priority (row_cell (rows df ! n) ''ACMG''))
              (ignore_clinvar (get_acmg_priority (row_cell (rows df ! n) ''ACMG'')) c) s i"
proof -
  let ?acmg = "map get_acmg_priority (map (\<lambda>r. row_cell r ''ACMG'') (rows df))"
  from assms obtain clinvar clnsigconf in_silico where
    cl: "apply_column get_clinvar_priority
          (map (\<lambda>r. row_cell r ''clinvar: Clinvar '') (rows df)) = Inr clinvar"
    and cs: "apply_column parse_clnsigconf
          (map (\<lambda>r. row_cell r ''CLNSIGCONF'') (rows df)) = Inr clnsigconf"
    and si: "apply_column calculate_in_silico_score (rows df) = Inr in_silico"
    and keys: "keys = map (\<lambda>(a, c, s, i). final_priority a (ignore_clinvar a c) s i)
                 (zip ?acmg (zip clinvar (zip clnsigconf in_silico)))"
    by (auto simp: final_priority_column_def df_getitem_def Let_def
        split: if_splits sum.splits)
  note 1 = apply_column_Inr [OF cl] and 2 = apply_column_Inr [OF cs]
    and 3 = apply_column_Inr [OF si]
  from 1 2 3 keys show "length keys = length (rows df)" by simp
  assume n: "n < length (rows df)"
  with 1 have "get_clinvar_priority (row_cell (rows df ! n) ''clinvar: Clinvar '') = Inr (clinvar ! n)"
    by auto
  moreover from n 2 have "parse_clnsigconf (row_cell (rows df ! n) ''CLNSIGCONF'') = Inr (clnsigconf ! n)"
    by auto
  moreover from n 3 have "calculate_in_silico_score (rows df ! n) = Inr (in_silico ! n)"
    by auto
  moreover from n 1 2 3 keys have "keys ! n =
      final_priority (get_acmg_priority (row_cell (rows df ! n) ''ACMG''))
        (ignore_clinvar (get_acmg_priority (row_cell (rows df ! n) ''ACMG'')) (clinvar ! n))
        (clnsigconf ! n) (in_silico ! n)"
    by simp
  ultimately show "\<exists>c s i. get_clinvar_priority (row_cell (rows df ! n) ''clinvar: Clinvar '') = Inr c
        \<and> parse_clnsigconf (row_cell (rows df ! n) ''CLNSIGCONF'') = Inr s
        \<and> calculate_in_silico_score (rows df ! n) = Inr i
        \<and> keys ! n =
            final_priority (get_acmg_priority (row_cell (rows df ! n) ''ACMG''))
              (ignore_clinvar (get_acmg_priority (row_cell (rows df ! n) ''ACMG'')) c) s i"
    by blast
qed


lemma clinvar_table_range: "(k, p) \<in> set CLINVAR_PRIORITY \<Longrightarrow> 1 \<le> p \<and> p \<le> 8"
  unfolding CLINVAR_PRIORITY_def by auto

lemma get_clinvar_priority_range:
  assumes "get_clinvar_priority v = Inr t"
  shows "1 \<le> t \<and> t \<le> 8"
proof (cases "isna v")
  case True
  with assms show ?thesis by (simp add: get_clinvar_priority_def)
next
  case False
  let ?ps = "List.map_filter (\<lambda>part. map_of CLINVAR_PRIORITY (strip part))
      (split_on (CHR ''|'') (strip (str_replace ''clinvar: '' [] (py_str v))))"
  from get_clinvar_priority_tiers [OF False] assms have t: "t = minimum_or_default ?ps" by simp
  show ?thesis
  proof (cases "?ps = []")
    case True
    with t show ?thesis by (simp add: minimum_or_default_def)
  next
    case nonempty: False
    with t have "t = Min (set ?ps)" by (simp add: minimum_or_default_def)
    with nonempty have "t \<in> set ?ps" using Min_in [of "set ?ps"] by simp
    then obtain part where "map_of CLINVAR_PRIORITY (strip part) = Some t"
      by (auto simp: set_map_filter_conv)
    then have "(strip part, t) \<in> set CLINVAR_PRIORITY" by (rule map_of_SomeD)
    then show ?thesis by (rule clinvar_table_range)
  qed
qed

lemma ignore_clinvar_range: "1 \<le> c \<and> c \<le> 8 \<Longrightarrow> 0 \<le> ignore_clinvar a c \<and> ignore_clinvar a c \<le> 8"
  by (simp add: ignore_clinvar_def)

text \<open>The two tier bands of the key are separated: with the consensus tier between 0 and
  8, the confidence score between -10 and 8 and the predictor score between -2 and 1, a
  lower classification tier gives a smaller key, and with the same classification tier
  a lower consensus tier gives a smaller key.\<close>

lemma final_priority_bands:
  assumes "0 \<le> c1" "c1 \<le> 8" "0 \<le> c2" "c2 \<le> 8"
    and "- 10 \<le> s1" "s1 \<le> 8" "- 10 \<le> s2" "s2 \<le> 8"
    and "- 2 \<le> i1" "i1 \<le> 1" "- 2 \<le> i2" "i2 \<le> 1"
  shows "a1 < a2 \<Longrightarrow> final_priority a1 c1 s1 i1 < final_priority a2 c2 s2 i2"
    and "c1 < c2 \<Longrightarrow> final_priority a c1 s1 i1 < final_priority a c2 s2 i2"
proof -
  have c: "(0::rat) \<le> of_int c1" "(of_int c1 :: rat) \<le> 8" "(0::rat) \<le> of_int c2"
    "(of_int c2 :: rat) \<le> 8"
    using assms(1-4) by simp_all
  {
    assume "a1 < a2"
    then have "a1 + 1 \<le> a2" by simp
    then have "(of_int (a1 + 1) :: rat) \<le> of_int a2" by (simp only: of_int_le_iff)
    then have "(of_int a1 :: rat) + 1 \<le> of_int a2" by simp
    with c assms(5-12) show "final_priority a1 c1 s1 i1 < final_priority a2 c2 s2 i2"
      unfolding final_priority_def by linarith
  }
  {
    assume "c1 < c2"
    then have "c1 + 1 \<le> c2" by simp
    then have "(of_int (c1 + 1) :: rat) \<le> of_int c2" by (simp only: of_int_le_iff)
    then have "(of_int c1 :: rat) + 1 \<le> of_int c2" by simp
    with assms(5-12) show "final_priority a c1 s1 i1 < final_priority a c2 s2 i2"
      unfolding final_priority_def by linarith
  }
qed

lemma tier_bands_separated:
  assumes keys: "final_priority_column df = Inr keys"
    and n: "n < length (rows df)" and m: "m < length (rows df)"
    and cn: "get_clinvar_priority (row_cell (rows df ! n) ''clinvar: Clinvar '') = Inr cn"
    and cm: "get_clinvar_priority (row_cell (rows df ! m) ''clinvar: Clinvar '') = Inr cm"
  shows "get_acmg_priority (row_cell (rows df ! n) ''ACMG'')
           < get_acmg_priority (row_cell (rows df ! m) ''ACMG'') \<Longrightarrow> keys ! n < keys ! m"
    and "get_acmg_priority (row_cell (rows df ! n) ''ACMG'')
           = get_acmg_priority (row_cell (rows df ! m) ''ACMG'') \<Longrightarrow>
         ignore_clinvar (get_acmg_priority (row_cell (rows df ! n) ''ACMG'')) cn
           < ignore_clinvar (get_acmg_priority (row_cell (rows df ! m) ''ACMG'')) cm \<Longrightarrow>
         keys ! n < keys ! m"
proof -
  let ?an = "get_acmg_priority (row_cell (rows df ! n) ''ACMG'')"
  let ?am = "get_acmg_priority (row_cell (rows df ! m) ''ACMG'')"
  from final_priority_column_rows(2) [OF keys n] cn obtain sn i_n where
    sn: "parse_clnsigconf (row_cell (rows df ! n) ''CLNSIGCONF'') = Inr sn"
    and i_n: "calculate_in_silico_score (rows df ! n) = Inr i_n"
    and kn: "keys ! n = final_priority ?an (ignore_clinvar ?an cn) sn i_n"
    by auto
  from final_priority_column_rows(2) [OF keys m] cm obtain sm i_m where
    sm: "parse_clnsigconf (row_cell (rows df ! m) ''CLNSIGCONF'') = Inr sm"
    and i_m: "calculate_in_silico_score (rows df ! m) = Inr i_m"
    and km: "keys ! m = final_priority ?am (ignore_clinvar ?am cm) sm i_m"
    by auto
  from get_clinvar_priority_range [OF cn]
  have rcn: "0 \<le> ignore_clinvar ?an cn" "ignore_clinvar ?an cn \<le> 8"
    using ignore_clinvar_range [of cn ?an] by simp_all
  from get_clinvar_priority_range [OF cm]
  have rcm: "0 \<le> ignore_clinvar ?am cm" "ignore_clinvar ?am cm \<le> 8"
    using ignore_clinvar_range [of cm ?am] by simp_all
  from parse_clnsigconf_range [OF sn] have rsn: "- 10 \<le> sn" "sn \<le> 8" by simp_all
  from parse_clnsigconf_range [OF sm] have rsm: "- 10 \<le> sm" "sm \<le> 8" by simp_all
  from i_n calculate_in_silico_score_range [of "rows df ! n"]
  have rin: "- 2 \<le> i_n" "i_n \<le> 1" by auto
  from i_m calculate_in_silico_score_range [of "rows df ! m"]
  have rim: "- 2 \<le> i_m" "i_m \<le> 1" by auto
  note bands = final_priority_bands [OF rcn rcm rsn rsm rin rim]
  show "?an < ?am \<Longrightarrow> keys ! n < keys ! m"
    using bands(1) kn km by simp
  show "?an = ?am \<Longrightarrow> ignore_clinvar ?an cn < ignore_clinvar ?am cm \<Longrightarrow> keys ! n < keys ! m"
    using bands(2) [of ?am] kn km by simp
qed




text \<open>
  Claim C2. For a row whose classification tier is at most 2, the consensus tier is set
  to 0 before the key is computed: whatever the consensus cell holds, the key of the row
  is its classification tier times 1000000, plus its confidence score times 100, plus
  its predictor score. So the order of two such rows by their keys depends on these
  three signals only.
\<close>

theorem pathogenic_tier_ignores_consensus:
  assumes "final_priority_column df = Inr keys"
    and "n < length (rows df)"
    and "get_acmg_priority (row_cell (rows df ! n) ''ACMG'') \<le> 2"
  shows "\<exists>c s i. get_clinvar_priority (row_cell (rows df ! n) ''clinvar: Clinvar '') = Inr c
      \<and> ignore_clinvar (get_acmg_priority (row_cell (rows df ! n) ''ACMG'')) c = 0
      \<and> parse_clnsigconf (row_cell (rows df ! n) ''CLNSIGCONF'') = Inr s
      \<and> calculate_in_silico_score (rows df ! n) = Inr i
      \<and> keys ! n =
          of_int (get_acmg_priority (row_cell (rows df ! n) ''ACMG'')) * 1000000 + s * 100 + i"
proof -
  from final_priority_column_rows(2) [OF assms(1) assms(2)] obtain c s i where
    c: "get_clinvar_priority (row_cell (rows df ! n) ''clinvar: Clinvar '') = Inr c"
    and s: "parse_clnsigconf (row_cell (rows df ! n) ''CLNSIGCONF'') = Inr s"
    and i: "calculate_in_silico_score (rows df ! n) = Inr i"
    and k: "keys ! n =
        final_priority (get_acmg_priority (row_cell (rows df ! n) ''ACMG''))
          (ignore_clinvar (get_acmg_priority (row_cell (rows df ! n) ''ACMG'')) c) s i"
    by blast
  from assms(3) have z: "ignore_clinvar (get_acmg_priority (row_cell (rows df ! n) ''ACMG'')) c = 0"
    by (simp add: ignore_clinvar_def)
  with k have "keys ! n =
      of_int (get_acmg_priority (row_cell (rows df ! n) ''ACMG'')) * 1000000 + s * 100 + i"
    by (simp add: final_priority_def)
  with c s i z show ?thesis by blast
qed

theorem pathogenic_tier_ignores_consensus_witness:
  "final_priority_column
     \<lparr>columns = [''ACMG'', ''clinvar: Clinvar '', ''CLNSIGCONF'', ''CADD_phred''],
      rows = [[(''ACMG'', Text ''Likely pathogenic''), (''clinvar: Clinvar '', Text ''Benign''),
               (''CLNSIGCONF'', Text ''Benign(3)''), (''CADD_phred'', Text ''26.1'')]]\<rparr>
     = Inr [2000798]
   \<and> (\<exists>c s i. get_clinvar_priority (Text ''Benign'') = Inr c
        \<and> ignore_clinvar 2 c = 0
        \<and> parse_clnsigconf (Text ''Benign(3)'') = Inr s
        \<and> calculate_in_silico_score
             [(''ACMG'', Text ''Likely pathogenic''), (''clinvar: Clinvar '', Text ''Benign''),
              (''CLNSIGCONF'', Text ''Benign(3)''), (''CADD_phred'', Text ''26.1'')] = Inr i
        \<and> (2000798 :: rat) = 2 * 1000000 + s * 100 + i)"
proof -
  let ?r = "[(''ACMG'', Text ''Likely pathogenic''), (''clinvar: Clinvar '', Text ''Benign''),
               (''CLNSIGCONF'', Text ''Benign(3)''), (''CADD_phred'', Text ''26.1'')]"
  let ?df = "\<lparr>columns = [''ACMG'', ''clinvar: Clinvar '', ''CLNSIGCONF'', ''CADD_phred''],
      rows = [?r]\<rparr>"
  have keys: "final_priority_column ?df = Inr [2000798]" by code_simp
  have n: "0 < length (rows ?df)" by simp
  have a: "get_acmg_priority (row_cell (rows ?df ! 0) ''ACMG'') = 2" by code_simp
  then have t: "get_acmg_priority (row_cell (rows ?df ! 0) ''ACMG'') \<le> 2" by simp
  have cells: "row_cell ?r ''clinvar: Clinvar '' = Text ''Benign''"
    "row_cell ?r ''CLNSIGCONF'' = Text ''Benign(3)''"
    by (simp_all add: row_cell_def)
  from pathogenic_tier_ignores_consensus [OF keys n t] a cells keys show ?thesis
    by simp
qed

text \<open>
  Claim C1 at two rows with the same classification tier 6 and the same consensus tier 6.
  The first row has the lower confidence score, 0 against 1/50, and should come first;
  its predictor score is 1 against -2. The factor 100 turns the difference of the
  confidence scores into 2, less than the difference 3 of the predictor scores, and the
  key of the first row is the larger one. The two tier bands do hold, see
  \<open>tier_bands_separated\<close>.
\<close>

theorem confidence_band_crossed:
  "final_priority_column
     \<lparr>columns = [''ACMG'', ''clinvar: Clinvar '', ''CLNSIGCONF'', ''CADD_phred'', ''MetaSVM_score''],
      rows = [[(''ACMG'', Text ''VUS''), (''clinvar: Clinvar '', Text ''.''),
               (''CLNSIGCONF'', NaN),
               (''CADD_phred'', Text ''.''), (''MetaSVM_score'', Text ''T'')],
              [(''ACMG'', Text ''VUS''), (''clinvar: Clinvar '', Text ''.''),
               (''CLNSIGCONF'', Text ''Benign(1)|Uncertain_significance(399)''),
               (''CADD_phred'', Text ''30''), (''MetaSVM_score'', Text ''.'')]]\<rparr>
     = Inr [6060001, 6060000]
   \<and> get_acmg_priority (Text ''VUS'') = 6
   \<and> get_clinvar_priority (Text ''.'') = Inr 6
   \<and> parse_clnsigconf NaN = Inr 0
   \<and> parse_clnsigconf (Text ''Benign(1)|Uncertain_significance(399)'') = Inr (1 / 50)
   \<and> calculate_in_silico_score
        [(''ACMG'', Text ''VUS''), (''clinvar: Clinvar '', Text ''.''), (''CLNSIGCONF'', NaN),
         (''CADD_phred'', Text ''.''), (''MetaSVM_score'', Text ''T'')] = Inr 1
   \<and> calculate_in_silico_score
        [(''ACMG'', Text ''VUS''), (''clinvar: Clinvar '', Text ''.''),
         (''CLNSIGCONF'', Text ''Benign(1)|Uncertain_significance(399)''),
         (''CADD_phred'', Text ''30''), (''MetaSVM_score'', Text ''.'')] = Inr (- 2)"
  by code_simp

end
